theory Spec2Isabelle
  imports Main
begin

section \<open>doccheck: a linter for Go documentation comments\<close>

text \<open>
  A shallow embedding of \<^verbatim>\<open>main.go\<close>.  Go strings are byte sequences, so a string is a
  \<^typ>\<open>char list\<close> (a \<^typ>\<open>char\<close> is one byte) and \<^verbatim>\<open>len\<close> is \<^const>\<open>length\<close>.
  Go's \<^verbatim>\<open>int\<close> is modelled by \<^typ>\<open>int\<close>: the three integers of the program (the issue
  counter, the count of documented files, the number of comment lines) are bounded by the
  number of comments and bytes of the parsed tree, which lives in memory, so that they stay
  far below the range of a machine \<^verbatim>\<open>int\<close>.
  A run-time panic is a value of type \<open>error\<close>.
\<close>

datatype error = NilPointerDereference | IndexOutOfRange

definition andThen :: "error + 'a \<Rightarrow> ('a \<Rightarrow> error + 'b) \<Rightarrow> error + 'b" where
  "andThen r f = (case r of Inl e \<Rightarrow> Inl e | Inr x \<Rightarrow> f x)"


subsection \<open>Package strings\<close>

text \<open>\<^verbatim>\<open>strings.HasPrefix(s, prefix)\<close>:
  \<^verbatim>\<open>len(s) >= len(prefix) && s[:len(prefix)] == prefix\<close>.\<close>

definition HasPrefix :: "string \<Rightarrow> string \<Rightarrow> bool" where
  "HasPrefix s p = (length p \<le> length s \<and> take (length p) s = p)"

text \<open>\<^verbatim>\<open>strings.Contains(s, substr)\<close>: \<open>substr\<close> occurs at some offset of \<open>s\<close>.\<close>

fun Contains :: "string \<Rightarrow> string \<Rightarrow> bool" where
  "Contains [] sub = HasPrefix [] sub"
| "Contains (c # cs) sub = (HasPrefix (c # cs) sub \<or> Contains cs sub)"

text \<open>\<^verbatim>\<open>strings.Count(s, "\n")\<close>: the number of newline bytes of \<open>s\<close>.\<close>

definition Count_newline :: "string \<Rightarrow> int" where
  "Count_newline s = int (length (filter (\<lambda>c. c = CHR 0x0A) s))"

text \<open>\<^verbatim>\<open>strings.ToLower\<close> on ASCII text (it is only applied to the four prefixes).\<close>

definition ToLower :: "string \<Rightarrow> string" where
  "ToLower s =
     map (\<lambda>c. case map_of (zip ''ABCDEFGHIJKLMNOPQRSTUVWXYZ'' ''abcdefghijklmnopqrstuvwxyz'') c of
                 None \<Rightarrow> c | Some d \<Rightarrow> d) s"


subsection \<open>Package unicode\<close>

text \<open>
  \<^verbatim>\<open>unicode.IsPunct(rune(b))\<close> for a byte \<open>b\<close>.  The conversion \<^verbatim>\<open>rune(b)\<close> of a byte
  gives the code point with the byte's value, at most \<^verbatim>\<open>unicode.MaxLatin1\<close>, where
  \<^verbatim>\<open>IsPunct\<close> reads the Latin-1 property table: the code points of category P are
  \<^verbatim>\<open>! " # % & ' ( ) * , - . / : ; ? @ [ \ ] _ { }\<close> and U+00A1, U+00A7, U+00AB, U+00B6,
  U+00B7, U+00BB, U+00BF.
\<close>

definition punct_Latin1 :: "nat list" where
  "punct_Latin1 =
     [0x21, 0x22, 0x23, 0x25, 0x26, 0x27, 0x28, 0x29, 0x2A, 0x2C, 0x2D, 0x2E, 0x2F,
      0x3A, 0x3B, 0x3F, 0x40, 0x5B, 0x5C, 0x5D, 0x5F, 0x7B, 0x7D,
      0xA1, 0xA7, 0xAB, 0xB6, 0xB7, 0xBB, 0xBF]"

definition IsPunct :: "nat \<Rightarrow> bool" where
  "IsPunct r = (r \<in> set punct_Latin1)"

definition rune :: "char \<Rightarrow> nat" where
  "rune b = of_char b"


subsection \<open>Package regexp\<close>

text \<open>
  The fragment of Go's regular expressions that the three patterns of the program use:
  literals, character classes given by ranges, \<^verbatim>\<open>.\<close>, alternation, concatenation, and
  \<^verbatim>\<open>*\<close> and \<^verbatim>\<open>+\<close> on a class.  The patterns are ASCII and each one starts with an
  ASCII literal, so that matching bytes and matching UTF-8 runes agree, also on the
  byte offsets of a match.
\<close>

datatype cls = Ranges "(char \<times> char) list" | AnyButNewline

datatype re = Eps | Lit string | Cls cls | Alt re re | Seq re re | Star cls | Plus cls

fun in_cls :: "cls \<Rightarrow> char \<Rightarrow> bool" where
  "in_cls (Ranges rs) c =
     list_ex (\<lambda>(lo, hi). (of_char lo :: nat) \<le> of_char c \<and> (of_char c :: nat) \<le> of_char hi) rs"
| "in_cls AnyButNewline c = (c \<noteq> CHR 0x0A)"

text \<open>\<^verbatim>\<open>\w\<close> is \<^verbatim>\<open>[0-9A-Za-z_]\<close>.\<close>

definition word_cls :: cls where
  "word_cls = Ranges [(CHR ''0'', CHR ''9''), (CHR ''A'', CHR ''Z''), (CHR ''a'', CHR ''z''),
                      (CHR ''_'', CHR ''_'')]"

text \<open>
  \<open>rem r s\<close> lists what is left of \<open>s\<close> after each way of matching \<open>r\<close> at the start of
  \<open>s\<close>, in the order of preference of a backtracking matcher (the first alternative
  first, the longest repetition first), which is the match Go's leftmost-first semantics
  selects.
\<close>

fun rem :: "re \<Rightarrow> string \<Rightarrow> string list" where
  "rem Eps s = [s]"
| "rem (Lit p) s = (if HasPrefix s p then [drop (length p) s] else [])"
| "rem (Cls k) s = (case s of [] \<Rightarrow> [] | c # cs \<Rightarrow> if in_cls k c then [cs] else [])"
| "rem (Alt a b) s = rem a s @ rem b s"
| "rem (Seq a b) s = concat (map (rem b) (rem a s))"
| "rem (Star k) s = map (\<lambda>n. drop n s) (rev [0 ..< Suc (length (takeWhile (in_cls k) s))])"
| "rem (Plus k) s = map (\<lambda>n. drop n s) (rev [1 ..< Suc (length (takeWhile (in_cls k) s))])"

text \<open>\<^verbatim>\<open>re.MatchString(s)\<close>: the pattern matches at some offset of \<open>s\<close>.\<close>

fun MatchString :: "re \<Rightarrow> string \<Rightarrow> bool" where
  "MatchString r [] = (rem r [] \<noteq> [])"
| "MatchString r (c # cs) = (rem r (c # cs) \<noteq> [] \<or> MatchString r cs)"

text \<open>
  \<^verbatim>\<open>re.FindStringIndex(s)\<close>: \<^verbatim>\<open>nil\<close> when there is no match, otherwise the offsets
  \<^verbatim>\<open>loc[0]\<close>, \<^verbatim>\<open>loc[1]\<close> of the leftmost match.  \<open>FindStringIndex_from i r s\<close> searches
  the suffix \<open>s\<close> that starts at offset \<open>i\<close>.
\<close>

fun FindStringIndex_from :: "nat \<Rightarrow> re \<Rightarrow> string \<Rightarrow> (nat \<times> nat) option" where
  "FindStringIndex_from i r [] =
     (case rem r [] of [] \<Rightarrow> None | t # _ \<Rightarrow> Some (i, i))"
| "FindStringIndex_from i r (c # cs) =
     (case rem r (c # cs) of
        [] \<Rightarrow> FindStringIndex_from (Suc i) r cs
      | t # _ \<Rightarrow> Some (i, i + (length (c # cs) - length t)))"

definition FindStringIndex :: "re \<Rightarrow> string \<Rightarrow> (nat \<times> nat) option" where
  "FindStringIndex r s = FindStringIndex_from 0 r s"

text \<open>The pattern that \<^verbatim>\<open>regexp.MustCompile\<close> compiles from
  \<^verbatim>\<open>strings.Join(ps, "|")\<close>, where no element of \<open>ps\<close> has a character that is special in a
  pattern: the alternation of the literals, in their order.\<close>

fun alternatives :: "string list \<Rightarrow> re" where
  "alternatives [] = Eps"
| "alternatives [p] = Lit p"
| "alternatives (p # ps) = Alt (Lit p) (alternatives ps)"


subsection \<open>The syntax tree (package go/ast)\<close>

text \<open>
  Only what the program reads.  An identifier is kept as its name, a field list and a
  comment group as their \<^verbatim>\<open>List\<close>; a pointer that may be \<^verbatim>\<open>nil\<close> is an option.
  A \<^verbatim>\<open>token.Pos\<close> is a number.
\<close>

record Comment =
  Text :: string

type_synonym CommentGroup = "Comment list"

datatype Expr = Ident string | StarExpr Expr | SelectorExpr Expr string | ArrayType Expr
  | OtherExpr

record Field =
  Names :: "string list"
  Type :: Expr

record FuncType =
  Results :: "Field list option"

datatype BlockStmt = BlockStmt "string list"

record FuncDecl =
  Doc :: "CommentGroup option"
  Name :: string
  FType :: FuncType
  Body :: "BlockStmt option"
  Pos :: nat

datatype Decl = FuncDeclD FuncDecl | GenDeclD | BadDeclD

record File =
  FileDoc :: "CommentGroup option"
  Decls :: "Decl list"

text \<open>\<^verbatim>\<open>Files\<close> is a Go map from file names to files.  The list gives its entries in the
  order in which \<^verbatim>\<open>range\<close> visits them in the run at hand.\<close>

record Package =
  PkgName :: string
  Files :: "(string \<times> File) list"

text \<open>
  The key under which \<^verbatim>\<open>parser.ParseDir(fset, path, ...)\<close> stores the file \<open>name\<close> of the
  directory in \<^verbatim>\<open>pkg.Files\<close>: \<^verbatim>\<open>filepath.Join(path, name)\<close>.  This is the join for a
  \<open>path\<close> in clean form other than the root (no separator at its end): the directory
  \<^verbatim>\<open>.\<close> gives the bare name, any other directory is put in front of it.
\<close>

definition ParseDir_filename :: "string \<Rightarrow> string \<Rightarrow> string" where
  "ParseDir_filename dir name = (if dir = ''.'' then name else dir @ ''/'' @ name)"


subsection \<open>The linter\<close>

text \<open>
  The state is the \<^verbatim>\<open>linter\<close> struct together with what the run has written to
  \<^verbatim>\<open>os.Stderr\<close>.  \<open>fset p\<close> stands for \<^verbatim>\<open>l.fset.Position(p).String()\<close>.  A line of
  \<open>stderr\<close> is recorded as the call of \<^verbatim>\<open>fmt.Fprintf\<close> that wrote it: its format string
  and its arguments.
\<close>

record linter =
  path :: string
  fset :: "nat \<Rightarrow> string"
  current_fn :: "FuncDecl option"
  regexp_predAntipattern :: "re option"
  regexp_predPrefix :: "re option"
  regexp_directive :: "re option"
  issues :: int
  stderr :: "(string \<times> int list) list"

definition prefixes :: "string list" where
  "prefixes = (let ps = [''Has'', ''Is'', ''Contains'', ''Can''] in ps @ map ToLower ps)"

definition patterns :: "string list" where
  "patterns = map (\<lambda>p. '' '' @ p @ '' '')
     [''returns true if'', ''returns false if'', ''returns true iff'', ''returns false iff'',
      ''returns true for'', ''returns false for'', ''returns true when'', ''returns false when'',
      ''tells whether'', ''tests whether'', ''determines whether'', ''indicates whether'']"

text \<open>The three patterns that \<^verbatim>\<open>initRegexps\<close> compiles:
  \<^verbatim>\<open>(?:Has|Is|Contains|Can|has|is|contains|can)[A-Z0-9]\w*\<close>, the alternation of the
  phrases, and \<^verbatim>\<open>//\w+: .*\<close>.\<close>

definition predPrefix_re :: re where
  "predPrefix_re =
     Seq (alternatives prefixes)
       (Seq (Cls (Ranges [(CHR ''A'', CHR ''Z''), (CHR ''0'', CHR ''9'')])) (Star word_cls))"

definition predAntipattern_re :: re where
  "predAntipattern_re = alternatives patterns"

definition directive_re :: re where
  "directive_re = Seq (Lit ''//'') (Seq (Plus word_cls) (Seq (Lit '': '') (Star AnyButNewline)))"

definition initRegexps :: "linter \<Rightarrow> linter" where
  "initRegexps l =
     l\<lparr>regexp_predPrefix := Some predPrefix_re,
       regexp_predAntipattern := Some predAntipattern_re,
       regexp_directive := Some directive_re\<rparr>"

definition warnPkg :: "string \<Rightarrow> string \<Rightarrow> int list \<Rightarrow> linter \<Rightarrow> linter" where
  "warnPkg fileName format args l =
     (let l1 = l\<lparr>issues := issues l + 1\<rparr>;
          anchor = (if fileName = [] then path l1 @ '': '' else fileName @ '': '')
      in l1\<lparr>stderr := stderr l1 @ [(anchor @ format @ [CHR 0x0A], args)]\<rparr>)"

definition warnFunc :: "string \<Rightarrow> int list \<Rightarrow> linter \<Rightarrow> error + linter" where
  "warnFunc format args l =
     (let l1 = l\<lparr>issues := issues l + 1\<rparr> in
      case current_fn l1 of
        None \<Rightarrow> Inl NilPointerDereference
      | Some fn \<Rightarrow>
          (let anchor = fset l1 (Pos fn) @ '': ''
           in Inr (l1\<lparr>stderr := stderr l1 @ [(anchor @ format @ [CHR 0x0A], args)]\<rparr>)))"

definition ExitCode :: "linter \<Rightarrow> int" where
  "ExitCode l = (if issues l = 0 then 0 else 1)"

definition isBooleanFunc :: "FuncDecl \<Rightarrow> bool" where
  "isBooleanFunc decl =
     (case Results (FType decl) of
        None \<Rightarrow> False
      | Some results \<Rightarrow>
          if length results \<noteq> 1 then False
          else (let res = results ! 0 in
                if length (Names res) \<noteq> 1 then False
                else (case Type res of Ident name \<Rightarrow> name = ''bool'' | _ \<Rightarrow> False)))"


text \<open>The generic \<^verbatim>\<open>for _, x := range xs\<close> loop whose body may panic.\<close>

fun forEach :: "('a \<Rightarrow> linter \<Rightarrow> error + linter) \<Rightarrow> 'a list \<Rightarrow> linter \<Rightarrow> error + linter" where
  "forEach body [] l = Inr l"
| "forEach body (x # xs) l = andThen (body x l) (forEach body xs)"

text \<open>The loop of \<^verbatim>\<open>CheckPackage\<close> over \<^verbatim>\<open>pkg.Files\<close>, on the variables
  \<^verbatim>\<open>docFilename\<close>, \<^verbatim>\<open>doc\<close> and \<^verbatim>\<open>count\<close>.\<close>

fun CheckPackage_files ::
  "(string \<times> File) list \<Rightarrow> string \<times> CommentGroup option \<times> int \<Rightarrow> string \<times> CommentGroup option \<times> int"
where
  "CheckPackage_files [] vars = vars"
| "CheckPackage_files ((filename, f) # rest) (docFilename, doc, count) =
     (if FileDoc f \<noteq> None
      then CheckPackage_files rest (filename, FileDoc f, count + 1)
      else CheckPackage_files rest (docFilename, doc, count))"

text \<open>The loop of \<^verbatim>\<open>CheckPackage\<close> over \<^verbatim>\<open>doc.List\<close>, on the variable \<^verbatim>\<open>lines\<close>.\<close>

fun CheckPackage_lines :: "Comment list \<Rightarrow> int \<Rightarrow> int" where
  "CheckPackage_lines [] lines = lines"
| "CheckPackage_lines (c # cs) lines = CheckPackage_lines cs (lines + (Count_newline (Text c) + 1))"

definition CheckPackage :: "Package \<Rightarrow> linter \<Rightarrow> error + linter" where
  "CheckPackage pkg l =
     (case CheckPackage_files (Files pkg) ([], None, 0) of (docFilename, doc, count) \<Rightarrow>
        if count = 1 then
          (if PkgName pkg \<noteq> ''main'' then
             (case doc of
                None \<Rightarrow> Inl NilPointerDereference
              | Some cg \<Rightarrow>
                  (let lines = CheckPackage_lines cg 0 in
                   if lines > 100 \<and> docFilename \<noteq> ''doc.go''
                   then Inr (warnPkg docFilename ''long doc-comments should go into doc.go file'' [] l)
                   else Inr l))
           else Inr l)
        else if count = 0 then Inr (warnPkg [] ''no doc-comment found'' [] l)
        else Inr (warnPkg [] ''found %d doc-comments, expected 1'' [count] l))"

fun checkSpacing :: "CommentGroup \<Rightarrow> linter \<Rightarrow> error + linter" where
  "checkSpacing [] l = Inr l"
| "checkSpacing (c # cs) l =
     (if HasPrefix (Text c) ''/*'' then checkSpacing cs l
      else (case regexp_directive l of
              None \<Rightarrow> Inl NilPointerDereference
            | Some directive \<Rightarrow>
                if MatchString directive (Text c) then checkSpacing cs l
                else if \<not> HasPrefix (Text c) ''// '' \<and> \<not> HasPrefix (Text c) [CHR ''/'', CHR ''/'', CHR 0x09]
                then andThen
                       (warnFunc ''found comment without leading space and it's not a pragma'' [] l)
                       (checkSpacing cs)
                else checkSpacing cs l))"

definition checkEndsWithPunct :: "CommentGroup \<Rightarrow> linter \<Rightarrow> error + linter" where
  "checkEndsWithPunct doc l =
     (if length doc \<noteq> 1 then Inr l
      else if \<not> HasPrefix (Text (doc ! 0)) ''//'' then Inr l
      else (let line = Text (doc ! 0) in
            if line = [] then Inl IndexOutOfRange
            else if \<not> IsPunct (rune (line ! (length line - 1)))
            then warnFunc ''doc-comment should end with punctuation, usually with period'' [] l
            else Inr l))"

fun checkNoMultiline :: "CommentGroup \<Rightarrow> linter \<Rightarrow> error + linter" where
  "checkNoMultiline [] l = Inr l"
| "checkNoMultiline (c # cs) l =
     (if HasPrefix (Text c) ''/*''
      then warnFunc ''should not use /**/ comments in doc-comments'' [] l
      else checkNoMultiline cs l)"

text \<open>The block of \<^verbatim>\<open>checkBoolFuncStyle\<close> that its comment numbers 1: a phrase of
  \<^verbatim>\<open>predAntipattern\<close> shortly after the name.\<close>

definition checkBoolFuncStyle_antipattern :: "string \<Rightarrow> string \<Rightarrow> linter \<Rightarrow> error + linter" where
  "checkBoolFuncStyle_antipattern line name l =
     (case regexp_predAntipattern l of
        None \<Rightarrow> Inl NilPointerDereference
      | Some predAntipattern \<Rightarrow>
          (case FindStringIndex predAntipattern line of
             None \<Rightarrow> Inr l
           | Some loc \<Rightarrow>
               (let diff = int (fst loc) - int (length name) in
                if diff > 1 \<and> diff \<le> 4 then warnFunc ''bad predicate comment'' [] l
                else Inr l)))"

text \<open>The block of \<^verbatim>\<open>checkBoolFuncStyle\<close> that its comment numbers 2: the function is
  guessed to be a predicate by its name.\<close>

definition checkBoolFuncStyle_prefix :: "string \<Rightarrow> string \<Rightarrow> linter \<Rightarrow> error + linter" where
  "checkBoolFuncStyle_prefix line name l =
     (case regexp_predPrefix l of
        None \<Rightarrow> Inl NilPointerDereference
      | Some predPrefix \<Rightarrow>
          if MatchString predPrefix name then
            (if \<not> Contains line (name @ '' reports whether '')
             then warnFunc ''bad predicate comment'' [] l
             else Inr l)
          else Inr l)"

definition checkBoolFuncStyle :: "CommentGroup \<Rightarrow> linter \<Rightarrow> error + linter" where
  "checkBoolFuncStyle doc l =
     (case current_fn l of
        None \<Rightarrow> Inl NilPointerDereference
      | Some fn \<Rightarrow>
          if \<not> isBooleanFunc fn then Inr l
          else (case doc of
                  [] \<Rightarrow> Inl IndexOutOfRange
                | c # _ \<Rightarrow>
                    (let line = Text c; name = Name fn in
                     andThen (checkBoolFuncStyle_antipattern line name l)
                             (checkBoolFuncStyle_prefix line name))))"

text \<open>The body of the loop of \<^verbatim>\<open>CheckFile\<close> over \<^verbatim>\<open>f.Decls\<close>.\<close>

definition CheckFile_decl :: "Decl \<Rightarrow> linter \<Rightarrow> error + linter" where
  "CheckFile_decl decl l =
     (case decl of
        FuncDeclD d \<Rightarrow>
          (case Doc d of
             None \<Rightarrow> Inr l
           | Some doc \<Rightarrow>
               (let l1 = l\<lparr>current_fn := Some d\<rparr> in
                andThen (andThen (andThen (checkBoolFuncStyle doc l1) (checkNoMultiline doc))
                                 (checkEndsWithPunct doc))
                        (checkSpacing doc)))
      | _ \<Rightarrow> Inr l)"

definition CheckFile :: "File \<Rightarrow> linter \<Rightarrow> error + linter" where
  "CheckFile f l = forEach CheckFile_decl (Decls f) l"

text \<open>
  \<^verbatim>\<open>main\<close> from the point where the directory has been parsed: \<open>packages\<close> are the
  parsed packages in the order in which \<^verbatim>\<open>range\<close> visits them, \<open>l\<close> is the linter that
  \<^verbatim>\<open>main\<close> has created.  The result is the state in which \<^verbatim>\<open>main\<close> calls
  \<^verbatim>\<open>os.Exit(l.ExitCode())\<close>.
\<close>

definition new_linter :: "string \<Rightarrow> (nat \<Rightarrow> string) \<Rightarrow> linter" where
  "new_linter p fs =
     \<lparr>path = p, fset = fs, current_fn = None, regexp_predAntipattern = None,
      regexp_predPrefix = None, regexp_directive = None, issues = 0, stderr = []\<rparr>"

definition main_package :: "Package \<Rightarrow> linter \<Rightarrow> error + linter" where
  "main_package pkg l =
     andThen (CheckPackage pkg l) (forEach (\<lambda>(filename, f). CheckFile f) (Files pkg))"

definition main :: "Package list \<Rightarrow> linter \<Rightarrow> error + linter" where
  "main packages l = forEach main_package packages (initRegexps l)"

definition main_exit :: "Package list \<Rightarrow> linter \<Rightarrow> error + int" where
  "main_exit packages l = andThen (main packages l) (\<lambda>l'. Inr (ExitCode l'))"



subsection \<open>Notions for stating the properties\<close>

text \<open>\<^verbatim>\<open>initRegexps\<close> has run: the three patterns are compiled.\<close>

definition ready :: "linter \<Rightarrow> bool" where
  "ready l =
     (regexp_predAntipattern l = Some predAntipattern_re \<and>
      regexp_predPrefix l = Some predPrefix_re \<and>
      regexp_directive l = Some directive_re)"

text \<open>The line that \<^verbatim>\<open>warnFunc\<close> writes for the function \<open>fn\<close> and the message \<open>msg\<close>, and
  the one that \<^verbatim>\<open>warnPkg\<close> writes for an anchor.\<close>

definition finding :: "linter \<Rightarrow> FuncDecl \<Rightarrow> string \<Rightarrow> string \<times> int list" where
  "finding l fn msg = (fset l (Pos fn) @ '': '' @ msg @ [CHR 0x0A], [])"

definition pkg_finding :: "string \<Rightarrow> string \<Rightarrow> int list \<Rightarrow> string \<times> int list" where
  "pkg_finding anchor msg args = (anchor @ '': '' @ msg @ [CHR 0x0A], args)"

text \<open>The state after the findings \<open>ws\<close> have been reported: one line and one issue each.\<close>

definition report :: "(string \<times> int list) list \<Rightarrow> linter \<Rightarrow> linter" where
  "report ws l = l\<lparr>issues := issues l + int (length ws), stderr := stderr l @ ws\<rparr>"

text \<open>A comment is a block comment, or starts with the slashes and a space or a tab.\<close>

definition block_comment :: "Comment \<Rightarrow> bool" where
  "block_comment c = HasPrefix (Text c) ''/*''"

definition leading_space :: "Comment \<Rightarrow> bool" where
  "leading_space c =
     (HasPrefix (Text c) ''// '' \<or> HasPrefix (Text c) [CHR ''/'', CHR ''/'', CHR 0x09])"

text \<open>The text of the comment has the shape of a directive: the slashes, at least one word
  character, a colon and a space, from its first byte on.\<close>

definition directive_shape :: "Comment \<Rightarrow> bool" where
  "directive_shape c = (rem directive_re (Text c) \<noteq> [])"

text \<open>The least offset of \<open>line\<close> at which one of the phrases, between two spaces, occurs.\<close>

definition phrase_start :: "string \<Rightarrow> nat option" where
  "phrase_start line =
     find (\<lambda>i. list_ex (\<lambda>p. HasPrefix (drop i line) p) patterns) [0 ..< Suc (length line)]"

definition antipattern_fires :: "string \<Rightarrow> string \<Rightarrow> bool" where
  "antipattern_fires name line =
     (case phrase_start line of
        None \<Rightarrow> False
      | Some start \<Rightarrow> 1 < int start - int (length name) \<and> int start - int (length name) \<le> 4)"

definition prefix_fires :: "string \<Rightarrow> string \<Rightarrow> bool" where
  "prefix_fires name line =
     (MatchString predPrefix_re name \<and> \<not> Contains line (name @ '' reports whether ''))"

text \<open>The name starts with one of the eight prefixes, followed by an upper-case letter or a
  digit.\<close>

definition begins_with_prefix :: "string \<Rightarrow> bool" where
  "begins_with_prefix name =
     list_ex (\<lambda>p. HasPrefix name p \<and>
                   (case drop (length p) name of
                      [] \<Rightarrow> False
                    | c # _ \<Rightarrow> in_cls (Ranges [(CHR ''A'', CHR ''Z''), (CHR ''0'', CHR ''9'')]) c))
       prefixes"

text \<open>The file carries a package-level documentation comment.\<close>

definition documented :: "string \<times> File \<Rightarrow> bool" where
  "documented nf = (FileDoc (snd nf) \<noteq> None)"

text \<open>The physical lines of a comment group: for each comment, its newlines and one.\<close>

definition physical_lines :: "CommentGroup \<Rightarrow> int" where
  "physical_lines doc = sum_list (map (\<lambda>c. Count_newline (Text c) + 1) doc)"


text \<open>What each of the four checks of a documented function reports, for the first comment
  \<open>c\<close> of the documentation and for the whole of it.\<close>

definition predicate_findings :: "linter \<Rightarrow> FuncDecl \<Rightarrow> Comment \<Rightarrow> (string \<times> int list) list" where
  "predicate_findings l fn c =
     (if isBooleanFunc fn
      then (if antipattern_fires (Name fn) (Text c)
            then [finding l fn ''bad predicate comment''] else []) @
           (if prefix_fires (Name fn) (Text c)
            then [finding l fn ''bad predicate comment''] else [])
      else [])"

definition multiline_findings :: "linter \<Rightarrow> FuncDecl \<Rightarrow> CommentGroup \<Rightarrow> (string \<times> int list) list" where
  "multiline_findings l fn doc =
     (if list_ex block_comment doc
      then [finding l fn ''should not use /**/ comments in doc-comments''] else [])"

definition punct_findings :: "linter \<Rightarrow> FuncDecl \<Rightarrow> CommentGroup \<Rightarrow> (string \<times> int list) list" where
  "punct_findings l fn doc =
     (if length doc = 1 \<and> HasPrefix (Text (hd doc)) ''//'' \<and>
         \<not> IsPunct (rune (last (Text (hd doc))))
      then [finding l fn ''doc-comment should end with punctuation, usually with period'']
      else [])"

definition spacing_findings :: "linter \<Rightarrow> FuncDecl \<Rightarrow> CommentGroup \<Rightarrow> (string \<times> int list) list" where
  "spacing_findings l fn doc =
     map (\<lambda>c. finding l fn ''found comment without leading space and it's not a pragma'')
       (filter (\<lambda>c. \<not> block_comment c \<and> \<not> MatchString directive_re (Text c) \<and>
                     \<not> leading_space c) doc)"

text \<open>The code point of the last character of a string that ends in a character of one or
  of two bytes of UTF-8.\<close>

definition last_rune :: "string \<Rightarrow> nat option" where
  "last_rune s =
     (case rev s of
        [] \<Rightarrow> None
      | b # before \<Rightarrow>
          if (of_char b :: nat) < 0x80 then Some (of_char b)
          else (case before of
                  [] \<Rightarrow> None
                | a # _ \<Rightarrow>
                    if 0xC2 \<le> (of_char a :: nat) \<and> (of_char a :: nat) < 0xE0 \<and>
                       0x80 \<le> (of_char b :: nat) \<and> (of_char b :: nat) < 0xC0
                    then Some ((of_char a - 0xC0) * 64 + (of_char b - 0x80))
                    else None))"

text \<open>The parser's invariant on comment groups, \<^verbatim>\<open>len(List) > 0\<close>, for the documentation
  of the functions of a package.\<close>

definition wf_decl :: "Decl \<Rightarrow> bool" where
  "wf_decl decl = (case decl of FuncDeclD d \<Rightarrow> Doc d \<noteq> Some [] | _ \<Rightarrow> True)"

definition wf_package :: "Package \<Rightarrow> bool" where
  "wf_package pkg = list_all (\<lambda>nf. list_all wf_decl (Decls (snd nf))) (Files pkg)"


text \<open>The issue counter is the number of findings written.\<close>

definition counted :: "linter \<Rightarrow> bool" where
  "counted l = (issues l = int (length (stderr l)))"

subsection \<open>Sample inputs\<close>

text \<open>A linter on which \<^verbatim>\<open>initRegexps\<close> has run, and the declaration
  \<^verbatim>\<open>func name() (ok bool)\<close> documented by the single comment \<open>text\<close>, the same for
  \<^verbatim>\<open>func name()\<close>, and the linter at the time the checks of a function run.\<close>

definition sample_linter :: linter where
  "sample_linter = initRegexps (new_linter ''pkg'' (\<lambda>p. ''pkg/a.go:3:1''))"

definition predicate_decl :: "string \<Rightarrow> string \<Rightarrow> FuncDecl" where
  "predicate_decl name text =
     \<lparr>Doc = Some [\<lparr>Text = text\<rparr>], Name = name,
      FType = \<lparr>Results = Some [\<lparr>Names = [''ok''], Type = Ident ''bool''\<rparr>]\<rparr>,
      Body = None, Pos = 1\<rparr>"

definition plain_decl :: "string \<Rightarrow> string \<Rightarrow> FuncDecl" where
  "plain_decl name text =
     \<lparr>Doc = Some [\<lparr>Text = text\<rparr>], Name = name, FType = \<lparr>Results = None\<rparr>,
      Body = None, Pos = 1\<rparr>"

text \<open>A file without a package comment and with the declarations \<open>ds\<close>, and one whose package
  comment is \<open>doc\<close>.\<close>

definition plain_file :: "Decl list \<Rightarrow> File" where
  "plain_file ds = \<lparr>FileDoc = None, Decls = ds\<rparr>"

definition doc_file :: "CommentGroup \<Rightarrow> Decl list \<Rightarrow> File" where
  "doc_file doc ds = \<lparr>FileDoc = Some doc, Decls = ds\<rparr>"

definition sample_at :: "FuncDecl \<Rightarrow> linter" where
  "sample_at fn = sample_linter\<lparr>current_fn := Some fn\<rparr>"


section \<open>Properties\<close>

lemma andThen_Inr [simp]: "andThen (Inr x) f = f x"
  by (simp add: andThen_def)

lemma andThen_Inl [simp]: "andThen (Inl e) f = Inl e"
  by (simp add: andThen_def)

lemma report_Nil [simp]: "report [] l = l"
  by (simp add: report_def)

lemma report_report [simp]: "report vs (report ws l) = report (ws @ vs) l"
  by (simp add: report_def)

lemma report_fields [simp]:
  "current_fn (report ws l) = current_fn l"
  "path (report ws l) = path l"
  "fset (report ws l) = fset l"
  "regexp_directive (report ws l) = regexp_directive l"
  "regexp_predPrefix (report ws l) = regexp_predPrefix l"
  "regexp_predAntipattern (report ws l) = regexp_predAntipattern l"
  "issues (report ws l) = issues l + int (length ws)"
  "stderr (report ws l) = stderr l @ ws"
  by (simp_all add: report_def)

lemma ready_report [simp]: "ready (report ws l) = ready l"
  by (simp add: ready_def)

lemma finding_report [simp]: "finding (report ws l) fn msg = finding l fn msg"
  by (simp add: finding_def)

lemma warnFunc_report:
  "current_fn l = Some fn \<Longrightarrow> warnFunc msg [] l = Inr (report [finding l fn msg] l)"
  by (simp add: warnFunc_def report_def finding_def Let_def)

lemma warnPkg_report:
  "warnPkg fileName msg args l =
     report [pkg_finding (if fileName = [] then path l else fileName) msg args] l"
  by (simp add: warnPkg_def report_def pkg_finding_def Let_def)

lemma checkNoMultiline_report:
  "current_fn l = Some fn \<Longrightarrow>
   checkNoMultiline doc l =
     Inr (report (if list_ex block_comment doc
                  then [finding l fn ''should not use /**/ comments in doc-comments''] else []) l)"
  by (induction doc) (simp_all add: warnFunc_report block_comment_def)

lemma checkSpacing_report:
  "ready l \<Longrightarrow> current_fn l = Some fn \<Longrightarrow>
   checkSpacing doc l =
     Inr (report (map (\<lambda>c. finding l fn ''found comment without leading space and it's not a pragma'')
                    (filter (\<lambda>c. \<not> block_comment c \<and> \<not> MatchString directive_re (Text c) \<and> \<not> leading_space c) doc)) l)"
proof (induction doc arbitrary: l)
  case Nil
  show ?case by simp
next
  case (Cons c cs)
  have d: "regexp_directive l = Some directive_re"
    using Cons.prems(1) by (simp add: ready_def)
  show ?case
    using Cons.prems
    by (simp add: d warnFunc_report Cons.IH block_comment_def leading_space_def)
qed

lemma checkEndsWithPunct_report:
  assumes cur: "current_fn l = Some fn"
  shows "checkEndsWithPunct doc l =
     Inr (report (if length doc = 1 \<and> HasPrefix (Text (hd doc)) ''//'' \<and> \<not> IsPunct (rune (last (Text (hd doc))))
                  then [finding l fn ''doc-comment should end with punctuation, usually with period'']
                  else []) l)"
proof (cases doc)
  case Nil
  then show ?thesis by (simp add: checkEndsWithPunct_def)
next
  case (Cons c cs)
  have ne: "HasPrefix (Text c) ''//'' \<Longrightarrow> Text c \<noteq> []"
    by (auto simp: HasPrefix_def)
  show ?thesis
    using Cons ne
    by (auto simp: checkEndsWithPunct_def Let_def warnFunc_report [OF cur] last_conv_nth)
qed

lemma find_map_Suc:
  "find P (map Suc xs) = map_option Suc (find (\<lambda>k. P (Suc k)) xs)"
  by (induction xs) simp_all

lemma upt_Suc_Suc: "[0 ..< Suc (Suc n)] = 0 # map Suc [0 ..< Suc n]"
  by (simp add: upt_conv_Cons map_Suc_upt del: upt_Suc)

lemma FindStringIndex_from_find:
  "map_option fst (FindStringIndex_from i r s) =
     map_option (\<lambda>k. i + k) (find (\<lambda>k. rem r (drop k s) \<noteq> []) [0 ..< Suc (length s)])"
proof (induction s arbitrary: i)
  case Nil
  show ?case by (simp split: list.splits)
next
  case (Cons c cs)
  show ?case
  proof (cases "rem r (c # cs)")
    case Nil
    have "map_option fst (FindStringIndex_from i r (c # cs)) =
          map_option fst (FindStringIndex_from (Suc i) r cs)"
      using Nil by simp
    also have "\<dots> = map_option (\<lambda>k. Suc i + k)
                       (find (\<lambda>k. rem r (drop k cs) \<noteq> []) [0 ..< Suc (length cs)])"
      by (rule Cons.IH)
    also have "\<dots> = map_option (\<lambda>k. i + k)
                       (find (\<lambda>k. rem r (drop k (c # cs)) \<noteq> []) [0 ..< Suc (length (c # cs))])"
      using Nil
      by (simp add: upt_Suc_Suc find_map_Suc option.map_comp comp_def del: upt_Suc)
    finally show ?thesis .
  next
    case (Cons t ts)
    then show ?thesis
      by (simp add: upt_Suc_Suc del: upt_Suc)
  qed
qed

lemma rem_alternatives:
  "ps \<noteq> [] \<Longrightarrow> (rem (alternatives ps) s \<noteq> []) = list_ex (HasPrefix s) ps"
  by (induction ps rule: alternatives.induct) auto

lemma patterns_not_Nil: "patterns \<noteq> []"
  by (simp add: patterns_def)

lemma FindStringIndex_predAntipattern:
  "map_option fst (FindStringIndex predAntipattern_re line) = phrase_start line"
proof -
  have "map_option fst (FindStringIndex predAntipattern_re line) =
        map_option (\<lambda>k. 0 + k)
          (find (\<lambda>k. rem (alternatives patterns) (drop k line) \<noteq> []) [0 ..< Suc (length line)])"
    unfolding FindStringIndex_def predAntipattern_re_def by (rule FindStringIndex_from_find)
  also have "\<dots> = phrase_start line"
    by (simp add: phrase_start_def rem_alternatives [OF patterns_not_Nil] option.map_ident del: upt_Suc)
  finally show ?thesis .
qed

lemma checkBoolFuncStyle_antipattern_report:
  assumes rdy: "ready l" and cur: "current_fn l = Some fn"
  shows "checkBoolFuncStyle_antipattern line name l =
           Inr (report (if antipattern_fires name line
                        then [finding l fn ''bad predicate comment''] else []) l)"
proof -
  have re: "regexp_predAntipattern l = Some predAntipattern_re"
    using rdy by (simp add: ready_def)
  show ?thesis
  proof (cases "FindStringIndex predAntipattern_re line")
    case None
    then have "phrase_start line = None"
      using FindStringIndex_predAntipattern [of line] by simp
    then show ?thesis
      using None by (simp add: checkBoolFuncStyle_antipattern_def re antipattern_fires_def)
  next
    case (Some loc)
    then have "phrase_start line = Some (fst loc)"
      using FindStringIndex_predAntipattern [of line] by simp
    then show ?thesis
      using Some
      by (simp add: checkBoolFuncStyle_antipattern_def re antipattern_fires_def Let_def
            warnFunc_report [OF cur])
  qed
qed

lemma checkBoolFuncStyle_prefix_report:
  assumes rdy: "ready l" and cur: "current_fn l = Some fn"
  shows "checkBoolFuncStyle_prefix line name l =
           Inr (report (if prefix_fires name line
                        then [finding l fn ''bad predicate comment''] else []) l)"
proof -
  have re: "regexp_predPrefix l = Some predPrefix_re"
    using rdy by (simp add: ready_def)
  show ?thesis
    by (simp add: checkBoolFuncStyle_prefix_def re prefix_fires_def warnFunc_report [OF cur])
qed

lemma checkBoolFuncStyle_report:
  assumes rdy: "ready l" and cur: "current_fn l = Some fn" and doc: "doc = c # cs"
  shows "checkBoolFuncStyle doc l =
           Inr (report (if isBooleanFunc fn
                        then (if antipattern_fires (Name fn) (Text c)
                              then [finding l fn ''bad predicate comment''] else []) @
                             (if prefix_fires (Name fn) (Text c)
                              then [finding l fn ''bad predicate comment''] else [])
                        else []) l)"
proof (cases "isBooleanFunc fn")
  case False
  then show ?thesis by (simp add: checkBoolFuncStyle_def cur)
next
  case True
  let ?l1 = "report (if antipattern_fires (Name fn) (Text c)
                     then [finding l fn ''bad predicate comment''] else []) l"
  have r1: "ready ?l1" and c1: "current_fn ?l1 = Some fn"
    using rdy cur by simp_all
  have "checkBoolFuncStyle doc l =
        andThen (checkBoolFuncStyle_antipattern (Text c) (Name fn) l)
                (checkBoolFuncStyle_prefix (Text c) (Name fn))"
    using True by (simp add: checkBoolFuncStyle_def cur doc Let_def)
  also have "\<dots> = checkBoolFuncStyle_prefix (Text c) (Name fn) ?l1"
    by (simp only: checkBoolFuncStyle_antipattern_report [OF rdy cur] andThen_Inr)
  also have "\<dots> = Inr (report (if prefix_fires (Name fn) (Text c)
                        then [finding ?l1 fn ''bad predicate comment''] else []) ?l1)"
    by (rule checkBoolFuncStyle_prefix_report [OF r1 c1])
  finally show ?thesis
    using True by (simp only: report_report finding_report if_True)
qed

lemma ready_current_fn [simp]: "ready (l\<lparr>current_fn := x\<rparr>) = ready l"
  by (simp add: ready_def)

lemma finding_current_fn [simp]: "finding (l\<lparr>current_fn := x\<rparr>) fn msg = finding l fn msg"
  by (simp add: finding_def)

lemma CheckFile_decl_report:
  assumes rdy: "ready l" and d: "Doc d = Some doc" and doc: "doc = c # cs"
  shows "CheckFile_decl (FuncDeclD d) l =
           Inr (report (predicate_findings l d c @ multiline_findings l d doc @
                        punct_findings l d doc @ spacing_findings l d doc)
                  (l\<lparr>current_fn := Some d\<rparr>))"
proof -
  let ?l1 = "l\<lparr>current_fn := Some d\<rparr>"
  let ?l2 = "report (predicate_findings l d c) ?l1"
  let ?l3 = "report (multiline_findings l d doc) ?l2"
  let ?l4 = "report (punct_findings l d doc) ?l3"
  have r1: "ready ?l1" and c1: "current_fn ?l1 = Some d"
    using rdy by simp_all
  have s1: "checkBoolFuncStyle doc ?l1 = Inr ?l2"
    by (simp add: checkBoolFuncStyle_report [OF r1 c1 doc] predicate_findings_def)
  have s2: "checkNoMultiline doc ?l2 = Inr ?l3"
    by (simp add: checkNoMultiline_report [of _ d] multiline_findings_def)
  have s3: "checkEndsWithPunct doc ?l3 = Inr ?l4"
    by (simp add: checkEndsWithPunct_report [of _ d] punct_findings_def)
  have s4: "checkSpacing doc ?l4 =
              Inr (report (spacing_findings l d doc) ?l4)"
    using rdy by (simp add: checkSpacing_report [of _ d] spacing_findings_def)
  have "CheckFile_decl (FuncDeclD d) l =
          andThen (andThen (andThen (checkBoolFuncStyle doc ?l1) (checkNoMultiline doc))
                     (checkEndsWithPunct doc)) (checkSpacing doc)"
    by (simp add: CheckFile_decl_def d Let_def)
  also have "\<dots> = Inr (report (spacing_findings l d doc) ?l4)"
    by (simp only: s1 s2 s3 s4 andThen_Inr)
  finally show ?thesis
    by (simp only: report_report append_assoc)
qed

text \<open>
  Claim C2.  \<^verbatim>\<open>isBooleanFunc\<close> returns true if and only if the result list of the
  declaration has exactly one entry, this entry binds exactly one name, and its type is the
  identifier \<^verbatim>\<open>bool\<close>; every other shape gives false.  The body of the function is not
  read: replacing it does not change the answer.
\<close>

theorem isBooleanFunc_iff:
  "(isBooleanFunc decl \<longleftrightarrow>
      (\<exists>n. Results (FType decl) = Some [\<lparr>Names = [n], Type = Ident ''bool''\<rparr>])) \<and>
   isBooleanFunc (decl\<lparr>Body := body\<rparr>) = isBooleanFunc decl"
proof -
  have "isBooleanFunc decl \<longleftrightarrow>
          (\<exists>n. Results (FType decl) = Some [\<lparr>Names = [n], Type = Ident ''bool''\<rparr>])"
  proof (cases "Results (FType decl)")
    case None
    then show ?thesis by (simp add: isBooleanFunc_def)
  next
    case (Some results)
    show ?thesis
    proof (cases results)
      case Nil
      then show ?thesis using Some by (simp add: isBooleanFunc_def)
    next
      case (Cons res rest)
      obtain ns t where res: "res = \<lparr>Names = ns, Type = t\<rparr>"
        by (cases res) simp
      show ?thesis
        using Some Cons res
        by (cases ns; cases t) (auto simp: isBooleanFunc_def Let_def)
    qed
  qed
  then show ?thesis by (simp add: isBooleanFunc_def)
qed

text \<open>The classifier at \<^verbatim>\<open>func IsFoo() (ok bool)\<close> and at \<^verbatim>\<open>func IsFoo() (a, b bool)\<close>.\<close>

theorem isBooleanFunc_iff_witness:
  "isBooleanFunc (predicate_decl ''IsFoo'' ''// IsFoo reports whether x.'') \<and>
   \<not> isBooleanFunc ((predicate_decl ''IsFoo'' ''// IsFoo reports whether x.'')
        \<lparr>FType := \<lparr>Results = Some [\<lparr>Names = [''a'', ''b''], Type = Ident ''bool''\<rparr>]\<rparr>\<rparr>)"
  using isBooleanFunc_iff [of "predicate_decl ''IsFoo'' ''// IsFoo reports whether x.''"]
    isBooleanFunc_iff [of "(predicate_decl ''IsFoo'' ''// IsFoo reports whether x.'')
        \<lparr>FType := \<lparr>Results = Some [\<lparr>Names = [''a'', ''b''], Type = Ident ''bool''\<rparr>]\<rparr>\<rparr>"]
  by (simp add: predicate_decl_def)

lemmas sample_defs =
  sample_linter_def sample_at_def predicate_decl_def plain_decl_def initRegexps_def new_linter_def
  ready_def finding_def report_def

lemmas regexp_defs =
  predPrefix_re_def predAntipattern_re_def directive_re_def prefixes_def patterns_def
  word_cls_def ToLower_def HasPrefix_def FindStringIndex_def

lemma ready_sample [simp]: "ready sample_linter" "ready (sample_at fn)"
  by (simp_all add: sample_defs)

lemma current_fn_sample [simp]: "current_fn (sample_at fn) = Some fn"
  by (simp add: sample_defs)

text \<open>
  Claim C3.  For a documented predicate function, \<^verbatim>\<open>checkBoolFuncStyle\<close> runs its block 1
  on the first comment and the name, and then its block 2.  Block 1
  reports ``bad predicate comment'' if and only if one of the phrases, between two spaces,
  occurs in the first comment and the least offset \<open>start\<close> at which one occurs satisfies
  \<open>1 < start - len(name) \<le> 4\<close>; when no phrase occurs, or the difference is outside this
  window, the block reports nothing.
\<close>

theorem antipattern_window:
  assumes "ready l" and "current_fn l = Some fn"
  shows "checkBoolFuncStyle_antipattern line name l =
           Inr (report (case phrase_start line of
                          None \<Rightarrow> []
                        | Some start \<Rightarrow>
                            if 1 < int start - int (length name) \<and>
                               int start - int (length name) \<le> 4
                            then [finding l fn ''bad predicate comment''] else []) l) \<and>
         (isBooleanFunc fn \<longrightarrow>
            checkBoolFuncStyle (c # cs) l =
              andThen (checkBoolFuncStyle_antipattern (Text c) (Name fn) l)
                      (checkBoolFuncStyle_prefix (Text c) (Name fn)))"
  using assms
  by (simp add: checkBoolFuncStyle_antipattern_report antipattern_fires_def checkBoolFuncStyle_def
        split: option.splits)

lemma phrase_start_sample1: "phrase_start ''// IsFoo returns true if x.'' = Some 8"
  by (simp add: phrase_start_def patterns_def HasPrefix_def)

text \<open>In \<^verbatim>\<open>// IsFoo returns true if x.\<close> the phrase starts at offset 8, which is 3 more than
  the length of \<^verbatim>\<open>IsFoo\<close>.\<close>

theorem antipattern_window_witness:
  "ready (sample_at (predicate_decl ''IsFoo'' ''// IsFoo returns true if x.'')) \<and>
   current_fn (sample_at (predicate_decl ''IsFoo'' ''// IsFoo returns true if x.'')) =
     Some (predicate_decl ''IsFoo'' ''// IsFoo returns true if x.'') \<and>
   checkBoolFuncStyle_antipattern ''// IsFoo returns true if x.'' ''IsFoo''
     (sample_at (predicate_decl ''IsFoo'' ''// IsFoo returns true if x.'')) =
   Inr (report [(''pkg/a.go:3:1: bad predicate comment'' @ [CHR 0x0A], [])]
          (sample_at (predicate_decl ''IsFoo'' ''// IsFoo returns true if x.'')))"
  using antipattern_window [of "sample_at (predicate_decl ''IsFoo'' ''// IsFoo returns true if x.'')"
      "predicate_decl ''IsFoo'' ''// IsFoo returns true if x.''" "''// IsFoo returns true if x.''" "''IsFoo''"]
  by (simp add: phrase_start_sample1) (simp add: sample_defs)

lemma MatchString_at_start: "rem r s \<noteq> [] \<Longrightarrow> MatchString r s"
  by (cases s) simp_all

lemma checkNoMultiline_stops:
  "block_comment c \<Longrightarrow> checkNoMultiline (pre @ c # post) l = checkNoMultiline (pre @ [c]) l"
  by (induction pre) (simp_all add: block_comment_def)

text \<open>
  Claim C4, as stated, fails: for \<^verbatim>\<open>func IsFoo() (ok bool)\<close> documented by
  \<^verbatim>\<open>// IsFoo returns true if x.\<close> the check of the name fires, and the finding of the check
  of the phrases, reported before, stays: \<^verbatim>\<open>checkBoolFuncStyle\<close> reports
  ``bad predicate comment'' twice.
\<close>

theorem predicate_checks_both_report_counterexample:
  "prefix_fires ''IsFoo'' ''// IsFoo returns true if x.'' \<and>
   checkBoolFuncStyle [\<lparr>Text = ''// IsFoo returns true if x.''\<rparr>]
     (sample_at (predicate_decl ''IsFoo'' ''// IsFoo returns true if x.'')) =
   Inr (report [(''pkg/a.go:3:1: bad predicate comment'' @ [CHR 0x0A], []),
                (''pkg/a.go:3:1: bad predicate comment'' @ [CHR 0x0A], [])]
          (sample_at (predicate_decl ''IsFoo'' ''// IsFoo returns true if x.'')))"
proof -
  have p: "prefix_fires ''IsFoo'' ''// IsFoo returns true if x.''"
    by (simp add: prefix_fires_def regexp_defs)
  have a: "antipattern_fires ''IsFoo'' ''// IsFoo returns true if x.''"
    by (simp add: antipattern_fires_def phrase_start_sample1)
  have b: "isBooleanFunc (predicate_decl ''IsFoo'' ''// IsFoo returns true if x.'')"
    by (simp add: isBooleanFunc_def predicate_decl_def)
  show ?thesis
    using p a b
    by (simp add: checkBoolFuncStyle_report [of _ "predicate_decl ''IsFoo'' ''// IsFoo returns true if x.''"])
       (simp add: sample_defs)
qed

text \<open>
  Claim C4, amended.  For a documented function, the four checks run one after the other and
  each one adds its findings to those reported before it.  The check of the phrases and the
  check of the name both run for a predicate function, in this order, and each reports its
  own ``bad predicate comment'': at most two findings per documentation comment, and when
  the check of the name fires, two if the check of the phrases has fired and one otherwise.
\<close>

theorem predicate_checks_both_report:
  assumes "ready l" and "Doc d = Some doc" and "doc = c # cs"
  shows "CheckFile_decl (FuncDeclD d) l =
           Inr (report (predicate_findings l d c @ multiline_findings l d doc @
                        punct_findings l d doc @ spacing_findings l d doc)
                  (l\<lparr>current_fn := Some d\<rparr>)) \<and>
         length (predicate_findings l d c) \<le> 2 \<and>
         (isBooleanFunc d \<and> prefix_fires (Name d) (Text c) \<longrightarrow>
            predicate_findings l d c =
              (if antipattern_fires (Name d) (Text c)
               then [finding l d ''bad predicate comment'', finding l d ''bad predicate comment'']
               else [finding l d ''bad predicate comment'']))"
  using assms
  by (simp add: CheckFile_decl_report) (simp add: predicate_findings_def)

text \<open>The four checks on \<^verbatim>\<open>func IsFoo() (ok bool)\<close> documented by
  \<^verbatim>\<open>// IsFoo returns true if x.\<close>.\<close>

theorem predicate_checks_both_report_witness:
  "ready sample_linter \<and>
   Doc (predicate_decl ''IsFoo'' ''// IsFoo returns true if x.'') =
     Some [\<lparr>Text = ''// IsFoo returns true if x.''\<rparr>] \<and>
   isBooleanFunc (predicate_decl ''IsFoo'' ''// IsFoo returns true if x.'') \<and>
   prefix_fires ''IsFoo'' ''// IsFoo returns true if x.'' \<and>
   CheckFile_decl (FuncDeclD (predicate_decl ''IsFoo'' ''// IsFoo returns true if x.'')) sample_linter =
     Inr (report [(''pkg/a.go:3:1: bad predicate comment'' @ [CHR 0x0A], []),
                  (''pkg/a.go:3:1: bad predicate comment'' @ [CHR 0x0A], [])]
            (sample_at (predicate_decl ''IsFoo'' ''// IsFoo returns true if x.'')))"
proof -
  let ?d = "predicate_decl ''IsFoo'' ''// IsFoo returns true if x.''"
  let ?c = "\<lparr>Text = ''// IsFoo returns true if x.''\<rparr>"
  have r: "ready sample_linter" by simp
  have d: "Doc ?d = Some [?c]" by (simp add: predicate_decl_def)
  have n: "Name ?d = ''IsFoo''" by (simp add: predicate_decl_def)
  have p: "prefix_fires ''IsFoo'' ''// IsFoo returns true if x.''"
    by (simp add: prefix_fires_def regexp_defs)
  have a: "antipattern_fires ''IsFoo'' ''// IsFoo returns true if x.''"
    by (simp add: antipattern_fires_def phrase_start_sample1)
  have b: "isBooleanFunc ?d"
    by (simp add: isBooleanFunc_def predicate_decl_def)
  have m: "multiline_findings sample_linter ?d [?c] = []"
    by (simp add: multiline_findings_def block_comment_def HasPrefix_def)
  have e: "punct_findings sample_linter ?d [?c] = []"
    by (simp add: punct_findings_def IsPunct_def rune_def punct_Latin1_def)
  have s: "spacing_findings sample_linter ?d [?c] = []"
    by (simp add: spacing_findings_def leading_space_def HasPrefix_def)
  have f: "finding sample_linter ?d ''bad predicate comment'' =
             (''pkg/a.go:3:1: bad predicate comment'' @ [CHR 0x0A], [])"
    by (simp add: sample_defs)
  have n': "Text ?c = ''// IsFoo returns true if x.''" by simp
  from predicate_checks_both_report [OF r d refl]
  have eq: "CheckFile_decl (FuncDeclD ?d) sample_linter =
              Inr (report (predicate_findings sample_linter ?d ?c @ multiline_findings sample_linter ?d [?c] @
                           punct_findings sample_linter ?d [?c] @ spacing_findings sample_linter ?d [?c])
                     (sample_linter\<lparr>current_fn := Some ?d\<rparr>))"
    and pf: "isBooleanFunc ?d \<and> prefix_fires (Name ?d) (Text ?c) \<longrightarrow>
               predicate_findings sample_linter ?d ?c =
                 (if antipattern_fires (Name ?d) (Text ?c)
                  then [finding sample_linter ?d ''bad predicate comment'',
                        finding sample_linter ?d ''bad predicate comment'']
                  else [finding sample_linter ?d ''bad predicate comment''])"
    by blast+
  have "predicate_findings sample_linter ?d ?c =
          [(''pkg/a.go:3:1: bad predicate comment'' @ [CHR 0x0A], []),
           (''pkg/a.go:3:1: bad predicate comment'' @ [CHR 0x0A], [])]"
    using pf b p a by (simp only: n n' f if_True simp_thms)
  then show ?thesis
    using eq r d b p by (simp only: m e s append_Nil2 sample_at_def simp_thms)
qed

text \<open>
  Claim C7, as stated, fails: the message that \<^verbatim>\<open>checkSpacing\<close> reports, here for the
  comment \<^verbatim>\<open>//nolint\<close>, ends in ``not a pragma'', not in ``not a directive''.
\<close>

theorem spacing_message_counterexample:
  "checkSpacing [\<lparr>Text = ''//nolint''\<rparr>] (sample_at (plain_decl ''Run'' ''//nolint'')) =
     Inr (report [(''pkg/a.go:3:1: found comment without leading space and it's not a pragma'' @ [CHR 0x0A], [])]
            (sample_at (plain_decl ''Run'' ''//nolint''))) \<and>
   ''found comment without leading space and it's not a pragma'' \<noteq>
   ''found comment without leading space and it's not a directive''"
proof -
  let ?fn = "plain_decl ''Run'' ''//nolint''"
  let ?c = "\<lparr>Text = ''//nolint''\<rparr>"
  have nm: "\<not> MatchString directive_re ''//nolint''"
    by (simp add: regexp_defs)
  have step: "checkSpacing [?c] (sample_at ?fn) =
          Inr (report
                 (map (\<lambda>c. finding (sample_at ?fn) ?fn
                              ''found comment without leading space and it's not a pragma'')
                    (filter (\<lambda>c. \<not> block_comment c \<and> \<not> MatchString directive_re (Text c) \<and>
                                  \<not> leading_space c) [?c]))
                 (sample_at ?fn))"
    by (rule checkSpacing_report) simp_all
  have one: "filter (\<lambda>c. \<not> block_comment c \<and> \<not> MatchString directive_re (Text c) \<and>
                          \<not> leading_space c) [?c] = [?c]"
    using nm by (simp add: block_comment_def leading_space_def HasPrefix_def)
  have f: "finding (sample_at ?fn) ?fn ''found comment without leading space and it's not a pragma'' =
             (''pkg/a.go:3:1: found comment without leading space and it's not a pragma'' @ [CHR 0x0A], [])"
    by (simp add: sample_defs)
  show ?thesis
    unfolding step one by (simp add: f)
qed

text \<open>
  Claim C7, amended.  \<^verbatim>\<open>checkSpacing\<close> reports ``found comment without leading space and
  it's not a pragma'' once for each comment of the documentation that is not a block comment,
  does not have the shape of a directive, and does not start with the slashes and a space
  or a tab; block comments and directives are exempt.  This is stated for documentation in
  which the pattern of a directive, where a comment contains it, is at the start of the
  comment.
\<close>

theorem spacing_finding_per_line:
  assumes "ready l" and "current_fn l = Some fn"
    and "\<forall>c\<in>set doc. MatchString directive_re (Text c) \<longrightarrow> directive_shape c"
  shows "checkSpacing doc l =
           Inr (report
                  (map (\<lambda>c. finding l fn ''found comment without leading space and it's not a pragma'')
                     (filter (\<lambda>c. \<not> block_comment c \<and> \<not> directive_shape c \<and> \<not> leading_space c) doc))
                  l)"
proof -
  have "filter (\<lambda>c. \<not> block_comment c \<and> \<not> MatchString directive_re (Text c) \<and> \<not> leading_space c) doc =
        filter (\<lambda>c. \<not> block_comment c \<and> \<not> directive_shape c \<and> \<not> leading_space c) doc"
    using assms(3) by (intro filter_cong refl) (auto simp: directive_shape_def dest: MatchString_at_start)
  then show ?thesis
    using assms(1,2) by (simp add: checkSpacing_report)
qed

text \<open>A documentation of five comments: the second and the fifth are reported, the directive
  \<^verbatim>\<open>//line: 3\<close> and the block comment are exempt.\<close>

theorem spacing_finding_per_line_witness:
  "ready (sample_at (plain_decl ''Run'' ''// Run runs.'')) \<and>
   current_fn (sample_at (plain_decl ''Run'' ''// Run runs.'')) = Some (plain_decl ''Run'' ''// Run runs.'') \<and>
   list_all (\<lambda>c. MatchString directive_re (Text c) = directive_shape c)
     [\<lparr>Text = ''// Run runs.''\<rparr>, \<lparr>Text = ''//nolint''\<rparr>, \<lparr>Text = ''//line: 3''\<rparr>,
      \<lparr>Text = ''/* block */''\<rparr>, \<lparr>Text = ''//x''\<rparr>] \<and>
   checkSpacing
     [\<lparr>Text = ''// Run runs.''\<rparr>, \<lparr>Text = ''//nolint''\<rparr>, \<lparr>Text = ''//line: 3''\<rparr>,
      \<lparr>Text = ''/* block */''\<rparr>, \<lparr>Text = ''//x''\<rparr>]
     (sample_at (plain_decl ''Run'' ''// Run runs.'')) =
   Inr (report
          [(''pkg/a.go:3:1: found comment without leading space and it's not a pragma'' @ [CHR 0x0A], []),
           (''pkg/a.go:3:1: found comment without leading space and it's not a pragma'' @ [CHR 0x0A], [])]
          (sample_at (plain_decl ''Run'' ''// Run runs.'')))"
proof -
  let ?fn = "plain_decl ''Run'' ''// Run runs.''"
  let ?doc = "[\<lparr>Text = ''// Run runs.''\<rparr>, \<lparr>Text = ''//nolint''\<rparr>, \<lparr>Text = ''//line: 3''\<rparr>,
      \<lparr>Text = ''/* block */''\<rparr>, \<lparr>Text = ''//x''\<rparr>]"
  have m: "\<not> MatchString directive_re ''// Run runs.''" "\<not> MatchString directive_re ''//nolint''"
    "MatchString directive_re ''//line: 3''" "\<not> MatchString directive_re ''/* block */''"
    "\<not> MatchString directive_re ''//x''"
    by (simp_all add: regexp_defs)
  have d: "\<not> directive_shape \<lparr>Text = ''// Run runs.''\<rparr>" "\<not> directive_shape \<lparr>Text = ''//nolint''\<rparr>"
    "directive_shape \<lparr>Text = ''//line: 3''\<rparr>" "\<not> directive_shape \<lparr>Text = ''/* block */''\<rparr>"
    "\<not> directive_shape \<lparr>Text = ''//x''\<rparr>"
    by (simp_all add: directive_shape_def regexp_defs)
  have h: "\<forall>c\<in>set ?doc. MatchString directive_re (Text c) \<longrightarrow> directive_shape c"
    using m d by simp
  have f: "filter (\<lambda>c. \<not> block_comment c \<and> \<not> directive_shape c \<and> \<not> leading_space c) ?doc =
             [\<lparr>Text = ''//nolint''\<rparr>, \<lparr>Text = ''//x''\<rparr>]"
    using d by (simp add: block_comment_def leading_space_def HasPrefix_def)
  have w: "finding (sample_at ?fn) ?fn ''found comment without leading space and it's not a pragma'' =
             (''pkg/a.go:3:1: found comment without leading space and it's not a pragma'' @ [CHR 0x0A], [])"
    by (simp add: sample_defs)
  have "checkSpacing ?doc (sample_at ?fn) =
          Inr (report
                 (map (\<lambda>c. finding (sample_at ?fn) ?fn ''found comment without leading space and it's not a pragma'')
                    (filter (\<lambda>c. \<not> block_comment c \<and> \<not> directive_shape c \<and> \<not> leading_space c) ?doc))
                 (sample_at ?fn))"
    by (rule spacing_finding_per_line [OF _ _ h]) simp_all
  then show ?thesis
    unfolding f using m d by (simp add: w)
qed

text \<open>
  Claim C8, as stated, fails: the message that \<^verbatim>\<open>checkNoMultiline\<close> reports is
  ``should not use /**/ comments in doc-comments'', and the line it writes is anchored at the
  position of the function, not at the comment.
\<close>

theorem block_comment_message_counterexample:
  "checkNoMultiline [\<lparr>Text = ''/* Run runs. */''\<rparr>] (sample_at (plain_decl ''Run'' ''/* Run runs. */'')) =
     Inr (report [(''pkg/a.go:3:1: should not use /**/ comments in doc-comments'' @ [CHR 0x0A], [])]
            (sample_at (plain_decl ''Run'' ''/* Run runs. */''))) \<and>
   ''should not use /**/ comments in doc-comments'' \<noteq> ''should not use block comments in doc-comments''"
proof -
  let ?fn = "plain_decl ''Run'' ''/* Run runs. */''"
  have step: "checkNoMultiline [\<lparr>Text = ''/* Run runs. */''\<rparr>] (sample_at ?fn) =
     Inr (report (if list_ex block_comment [\<lparr>Text = ''/* Run runs. */''\<rparr>]
                  then [finding (sample_at ?fn) ?fn ''should not use /**/ comments in doc-comments''] else [])
            (sample_at ?fn))"
    by (rule checkNoMultiline_report) simp
  have f: "finding (sample_at ?fn) ?fn ''should not use /**/ comments in doc-comments'' =
      (''pkg/a.go:3:1: should not use /**/ comments in doc-comments'' @ [CHR 0x0A], [])"
    by (simp add: sample_defs)
  have b: "list_ex block_comment [\<lparr>Text = ''/* Run runs. */''\<rparr>]"
    by (simp add: block_comment_def HasPrefix_def)
  show ?thesis
    unfolding step using b by (simp add: f)
qed

text \<open>
  Claim C8, amended.  For a documented function, \<^verbatim>\<open>checkNoMultiline\<close> reports exactly one
  finding ``should not use /**/ comments in doc-comments'', anchored at the function, when
  the documentation has a block comment, and nothing when it has none.  The scan stops at
  the first block comment: what follows it does not change the result.
\<close>

theorem one_block_comment_finding:
  assumes "current_fn l = Some fn"
  shows "checkNoMultiline doc l =
           Inr (report (if list_ex block_comment doc
                        then [finding l fn ''should not use /**/ comments in doc-comments'']
                        else []) l) \<and>
         (block_comment c \<longrightarrow>
            checkNoMultiline (pre @ c # post) l = checkNoMultiline (pre @ [c]) l)"
  using assms by (simp add: checkNoMultiline_report checkNoMultiline_stops)

text \<open>Two block comments after a line comment give one finding, as one does.\<close>

theorem one_block_comment_finding_witness:
  "current_fn (sample_at (plain_decl ''Run'' ''// Run runs.'')) = Some (plain_decl ''Run'' ''// Run runs.'') \<and>
   block_comment \<lparr>Text = ''/* it */''\<rparr> \<and>
   checkNoMultiline [\<lparr>Text = ''// Run runs.''\<rparr>, \<lparr>Text = ''/* it */''\<rparr>, \<lparr>Text = ''/* all */''\<rparr>]
     (sample_at (plain_decl ''Run'' ''// Run runs.'')) =
   Inr (report [(''pkg/a.go:3:1: should not use /**/ comments in doc-comments'' @ [CHR 0x0A], [])]
          (sample_at (plain_decl ''Run'' ''// Run runs.''))) \<and>
   checkNoMultiline [\<lparr>Text = ''// Run runs.''\<rparr>, \<lparr>Text = ''/* it */''\<rparr>]
     (sample_at (plain_decl ''Run'' ''// Run runs.'')) =
   Inr (report [(''pkg/a.go:3:1: should not use /**/ comments in doc-comments'' @ [CHR 0x0A], [])]
          (sample_at (plain_decl ''Run'' ''// Run runs.'')))"
proof -
  let ?fn = "plain_decl ''Run'' ''// Run runs.''"
  let ?doc = "[\<lparr>Text = ''// Run runs.''\<rparr>, \<lparr>Text = ''/* it */''\<rparr>, \<lparr>Text = ''/* all */''\<rparr>]"
  have c: "current_fn (sample_at ?fn) = Some ?fn" by simp
  have b: "block_comment \<lparr>Text = ''/* it */''\<rparr>"
    by (simp add: block_comment_def HasPrefix_def)
  have e: "list_ex block_comment ?doc"
    by (simp add: block_comment_def HasPrefix_def)
  have f: "finding (sample_at ?fn) ?fn ''should not use /**/ comments in doc-comments'' =
      (''pkg/a.go:3:1: should not use /**/ comments in doc-comments'' @ [CHR 0x0A], [])"
    by (simp add: sample_defs)
  from one_block_comment_finding [OF c, of ?doc "\<lparr>Text = ''/* it */''\<rparr>" "[\<lparr>Text = ''// Run runs.''\<rparr>]" "[\<lparr>Text = ''/* all */''\<rparr>]"]
  have eq: "checkNoMultiline ?doc (sample_at ?fn) =
           Inr (report (if list_ex block_comment ?doc
                        then [finding (sample_at ?fn) ?fn ''should not use /**/ comments in doc-comments'']
                        else []) (sample_at ?fn))"
    and st: "block_comment \<lparr>Text = ''/* it */''\<rparr> \<longrightarrow>
            checkNoMultiline ([\<lparr>Text = ''// Run runs.''\<rparr>] @ \<lparr>Text = ''/* it */''\<rparr> # [\<lparr>Text = ''/* all */''\<rparr>]) (sample_at ?fn) =
            checkNoMultiline ([\<lparr>Text = ''// Run runs.''\<rparr>] @ [\<lparr>Text = ''/* it */''\<rparr>]) (sample_at ?fn)"
    by blast+
  have eq': "checkNoMultiline ?doc (sample_at ?fn) =
      Inr (report [(''pkg/a.go:3:1: should not use /**/ comments in doc-comments'' @ [CHR 0x0A], [])] (sample_at ?fn))"
    using eq e by (simp only: f if_True)
  have st': "checkNoMultiline [\<lparr>Text = ''// Run runs.''\<rparr>, \<lparr>Text = ''/* it */''\<rparr>] (sample_at ?fn) =
            checkNoMultiline ?doc (sample_at ?fn)"
    using st b by (simp only: append_Cons append_Nil simp_thms)
  show ?thesis
    using c b eq' st' by (simp only: simp_thms)
qed

text \<open>
  Claim C1.  The pattern \<^verbatim>\<open>predPrefix\<close> is not anchored, and \<^verbatim>\<open>MatchString\<close> looks for it
  at every offset of the name.  The name \<^verbatim>\<open>axisX\<close> does not begin with one of the
  prefixes, but contains \<^verbatim>\<open>isX\<close>: for \<^verbatim>\<open>func axisX() (ok bool)\<close> documented by
  \<^verbatim>\<open>// axisX checks the axis.\<close> the check of the name reports ``bad predicate comment''
  (the check of the phrases does not fire, and no other check reports).
\<close>

theorem prefix_pattern_matches_inside_name:
  "\<not> begins_with_prefix ''axisX'' \<and>
   \<not> antipattern_fires ''axisX'' ''// axisX checks the axis.'' \<and>
   CheckFile_decl (FuncDeclD (predicate_decl ''axisX'' ''// axisX checks the axis.'')) sample_linter =
     Inr (report [(''pkg/a.go:3:1: bad predicate comment'' @ [CHR 0x0A], [])]
            (sample_at (predicate_decl ''axisX'' ''// axisX checks the axis.'')))"
proof -
  let ?d = "predicate_decl ''axisX'' ''// axisX checks the axis.''"
  let ?c = "\<lparr>Text = ''// axisX checks the axis.''\<rparr>"
  have nb: "\<not> begins_with_prefix ''axisX''"
    by (simp add: begins_with_prefix_def prefixes_def ToLower_def HasPrefix_def)
  have na: "\<not> antipattern_fires ''axisX'' ''// axisX checks the axis.''"
    by (simp add: antipattern_fires_def phrase_start_def patterns_def HasPrefix_def)
  have p: "prefix_fires ''axisX'' ''// axisX checks the axis.''"
    by (simp add: prefix_fires_def regexp_defs)
  have b: "isBooleanFunc ?d"
    by (simp add: isBooleanFunc_def predicate_decl_def)
  have d: "Doc ?d = Some [?c]" and n: "Name ?d = ''axisX''"
    by (simp_all add: predicate_decl_def)
  have m: "multiline_findings sample_linter ?d [?c] = []"
    by (simp add: multiline_findings_def block_comment_def HasPrefix_def)
  have e: "punct_findings sample_linter ?d [?c] = []"
    by (simp add: punct_findings_def IsPunct_def rune_def punct_Latin1_def)
  have s: "spacing_findings sample_linter ?d [?c] = []"
    by (simp add: spacing_findings_def leading_space_def HasPrefix_def)
  have f: "finding sample_linter ?d ''bad predicate comment'' =
             (''pkg/a.go:3:1: bad predicate comment'' @ [CHR 0x0A], [])"
    by (simp add: sample_defs)
  have pf: "predicate_findings sample_linter ?d ?c =
             [(''pkg/a.go:3:1: bad predicate comment'' @ [CHR 0x0A], [])]"
    using b na p by (simp add: predicate_findings_def n f)
  have "CheckFile_decl (FuncDeclD ?d) sample_linter =
          Inr (report (predicate_findings sample_linter ?d ?c @ multiline_findings sample_linter ?d [?c] @
                       punct_findings sample_linter ?d [?c] @ spacing_findings sample_linter ?d [?c])
                 (sample_linter\<lparr>current_fn := Some ?d\<rparr>))"
    by (rule CheckFile_decl_report [OF _ d refl]) simp
  then show ?thesis
    using nb na by (simp only: pf m e s append_Nil2 sample_at_def simp_thms)
qed

text \<open>
  Claim C6.  \<^verbatim>\<open>checkEndsWithPunct\<close> converts the last byte of the comment to a rune, not
  its last character.  The comment \<^verbatim>\<open>// Greet says ol\<close> followed by U+00E1 (a with acute,
  the bytes C3 A1 in UTF-8) ends in a letter, which is not punctuation; its last byte A1,
  read as the code point U+00A1 (inverted exclamation mark), is, and nothing is reported.
\<close>

theorem punct_check_reads_last_byte:
  "last_rune (''// Greet says ol'' @ [CHR 0xC3, CHR 0xA1]) = Some 0xE1 \<and>
   \<not> IsPunct 0xE1 \<and>
   checkEndsWithPunct [\<lparr>Text = ''// Greet says ol'' @ [CHR 0xC3, CHR 0xA1]\<rparr>]
     (sample_at (plain_decl ''Greet'' (''// Greet says ol'' @ [CHR 0xC3, CHR 0xA1]))) =
   Inr (sample_at (plain_decl ''Greet'' (''// Greet says ol'' @ [CHR 0xC3, CHR 0xA1])))"
proof -
  let ?t = "''// Greet says ol'' @ [CHR 0xC3, CHR 0xA1]"
  let ?fn = "plain_decl ''Greet'' ?t"
  have a: "last_rune ?t = Some 0xE1"
    by (simp add: last_rune_def)
  have b: "\<not> IsPunct 0xE1"
    by (simp add: IsPunct_def punct_Latin1_def)
  have step: "checkEndsWithPunct [\<lparr>Text = ?t\<rparr>] (sample_at ?fn) =
     Inr (report (if length [\<lparr>Text = ?t\<rparr>] = 1 \<and> HasPrefix (Text (hd [\<lparr>Text = ?t\<rparr>])) ''//'' \<and>
                     \<not> IsPunct (rune (last (Text (hd [\<lparr>Text = ?t\<rparr>]))))
                  then [finding (sample_at ?fn) ?fn ''doc-comment should end with punctuation, usually with period'']
                  else []) (sample_at ?fn))"
    by (rule checkEndsWithPunct_report) simp
  have c: "IsPunct (rune (last (Text (hd [\<lparr>Text = ?t\<rparr>]))))"
    by (simp add: IsPunct_def rune_def punct_Latin1_def)
  show ?thesis
    unfolding step using a b c by simp
qed

lemma CheckPackage_files_filter:
  "CheckPackage_files files (dn, d, n) =
     (let fs = filter documented files in
      if fs = [] then (dn, d, n)
      else (fst (last fs), FileDoc (snd (last fs)), n + int (length fs)))"
proof (induction files arbitrary: dn d n)
  case Nil
  show ?case by simp
next
  case (Cons nf files)
  obtain filename f where nf: "nf = (filename, f)"
    by (cases nf)
  show ?case
    by (simp add: nf Cons.IH documented_def Let_def)
qed

lemma CheckPackage_lines_sum: "CheckPackage_lines doc n = n + physical_lines doc"
  by (induction doc arbitrary: n) (simp_all add: physical_lines_def)

text \<open>
  Claim C9.  \<^verbatim>\<open>CheckPackage\<close> counts the files that carry a package comment.  When the
  count is 0 it reports exactly one finding, ``no doc-comment found'', anchored at the path
  of the package, and nothing else; when the count is greater than 1 it reports exactly one
  finding, with the format ``found %d doc-comments, expected 1'' and the count as its
  argument, anchored at the path of the package, and nothing else.  In both cases the check
  of long comments does not run: neither the comments nor the name of the package are read.
\<close>

theorem package_doc_count:
  "(length (filter documented (Files pkg)) = 0 \<longrightarrow>
      CheckPackage pkg l = Inr (report [pkg_finding (path l) ''no doc-comment found'' []] l)) \<and>
   (1 < length (filter documented (Files pkg)) \<longrightarrow>
      CheckPackage pkg l =
        Inr (report [pkg_finding (path l) ''found %d doc-comments, expected 1''
                       [int (length (filter documented (Files pkg)))]] l))"
  by (auto simp: CheckPackage_def CheckPackage_files_filter Let_def warnPkg_report)

text \<open>\<^verbatim>\<open>CheckPackage\<close> on a package, not \<^verbatim>\<open>main\<close>, in which exactly one entry of
  \<^verbatim>\<open>pkg.Files\<close> carries a package comment: the key of the entry is compared with
  \<^verbatim>\<open>doc.go\<close>.\<close>

lemma CheckPackage_one_documented:
  assumes one: "filter documented (Files pkg) = [(name, f)]"
    and doc: "FileDoc f = Some doc"
    and pkg: "PkgName pkg \<noteq> ''main''"
  shows "CheckPackage pkg l =
           Inr (report (if 100 < physical_lines doc \<and> name \<noteq> ''doc.go''
                        then [pkg_finding (if name = [] then path l else name)
                                ''long doc-comments should go into doc.go file'' []]
                        else []) l)"
  using doc pkg
  by (simp add: CheckPackage_def CheckPackage_files_filter one Let_def warnPkg_report
        CheckPackage_lines_sum)

text \<open>A package of two files without a package comment, and one where two of the three files
  have one.\<close>

theorem package_doc_count_witness:
  "length (filter documented [(''pkg/a.go'', plain_file []), (''pkg/b.go'', plain_file [])]) = 0 \<and>
   CheckPackage \<lparr>PkgName = ''lib'', Files = [(''pkg/a.go'', plain_file []), (''pkg/b.go'', plain_file [])]\<rparr>
     sample_linter =
   Inr (report [(''pkg: no doc-comment found'' @ [CHR 0x0A], [])] sample_linter) \<and>
   1 < length (filter documented
         [(''pkg/a.go'', doc_file [\<lparr>Text = ''// Package lib.''\<rparr>] []), (''pkg/b.go'', plain_file []),
          (''pkg/c.go'', doc_file [\<lparr>Text = ''// Package lib.''\<rparr>] [])]) \<and>
   CheckPackage
     \<lparr>PkgName = ''lib'',
      Files = [(''pkg/a.go'', doc_file [\<lparr>Text = ''// Package lib.''\<rparr>] []), (''pkg/b.go'', plain_file []),
               (''pkg/c.go'', doc_file [\<lparr>Text = ''// Package lib.''\<rparr>] [])]\<rparr> sample_linter =
   Inr (report [(''pkg: found %d doc-comments, expected 1'' @ [CHR 0x0A], [2])] sample_linter)"
proof -
  let ?p0 = "\<lparr>PkgName = ''lib'', Files = [(''pkg/a.go'', plain_file []), (''pkg/b.go'', plain_file [])]\<rparr>"
  let ?p2 = "\<lparr>PkgName = ''lib'',
      Files = [(''pkg/a.go'', doc_file [\<lparr>Text = ''// Package lib.''\<rparr>] []), (''pkg/b.go'', plain_file []),
               (''pkg/c.go'', doc_file [\<lparr>Text = ''// Package lib.''\<rparr>] [])]\<rparr>"
  have n0: "length (filter documented (Files ?p0)) = 0"
    by (simp add: documented_def plain_file_def)
  have n2: "length (filter documented (Files ?p2)) = 2"
    by (simp add: documented_def plain_file_def doc_file_def)
  have pth: "path sample_linter = ''pkg''"
    by (simp add: sample_defs)
  have a: "CheckPackage ?p0 sample_linter =
             Inr (report [pkg_finding (path sample_linter) ''no doc-comment found'' []] sample_linter)"
    using package_doc_count [of ?p0 sample_linter] n0 by blast
  have b: "CheckPackage ?p2 sample_linter =
             Inr (report [pkg_finding (path sample_linter) ''found %d doc-comments, expected 1''
                            [int (length (filter documented (Files ?p2)))]] sample_linter)"
    using package_doc_count [of ?p2 sample_linter] n2 by simp
  show ?thesis
    using a b n0 n2 by (simp add: pth pkg_finding_def)
qed

lemma Count_newline_append: "Count_newline (xs @ ys) = Count_newline xs + Count_newline ys"
  by (simp add: Count_newline_def)

lemma Count_newline_replicate: "Count_newline (replicate n (CHR 0x0A)) = int n"
  by (simp add: Count_newline_def)

text \<open>
  Claim C5.  The claim says that a package comment of more than 100 lines that is located in
  the file \<^verbatim>\<open>doc.go\<close> of the package produces no finding.  \<^verbatim>\<open>CheckPackage\<close> compares
  the key of the file in \<^verbatim>\<open>pkg.Files\<close> with \<^verbatim>\<open>doc.go\<close>, and the key is the name joined
  to the directory: for the package in the directory \<^verbatim>\<open>pkg\<close> the file \<^verbatim>\<open>doc.go\<close> has the
  key \<^verbatim>\<open>pkg/doc.go\<close>, and its comment of 101 lines is reported, with a message that asks
  to move it to \<^verbatim>\<open>doc.go\<close>.
\<close>

theorem long_doc_in_doc_go_is_reported:
  "path sample_linter = ''pkg'' \<and>
   ParseDir_filename ''pkg'' ''doc.go'' = ''pkg/doc.go'' \<and>
   physical_lines [\<lparr>Text = ''/*'' @ replicate 100 (CHR 0x0A) @ ''*/''\<rparr>] = 101 \<and>
   CheckPackage
     \<lparr>PkgName = ''lib'',
      Files = [(ParseDir_filename ''pkg'' ''a.go'', plain_file []),
               (ParseDir_filename ''pkg'' ''doc.go'',
                doc_file [\<lparr>Text = ''/*'' @ replicate 100 (CHR 0x0A) @ ''*/''\<rparr>] [])]\<rparr>
     sample_linter =
   Inr (report [(''pkg/doc.go: long doc-comments should go into doc.go file'' @ [CHR 0x0A], [])]
          sample_linter)"
proof -
  let ?doc = "[\<lparr>Text = ''/*'' @ replicate 100 (CHR 0x0A) @ ''*/''\<rparr>]"
  let ?f = "doc_file ?doc []"
  let ?p = "\<lparr>PkgName = ''lib'',
             Files = [(ParseDir_filename ''pkg'' ''a.go'', plain_file []),
                      (ParseDir_filename ''pkg'' ''doc.go'', ?f)]\<rparr>"
  have pth: "path sample_linter = ''pkg''"
    by (simp add: sample_defs)
  have key: "ParseDir_filename ''pkg'' ''doc.go'' = ''pkg/doc.go''"
    by (simp add: ParseDir_filename_def)
  have f1: "filter documented (Files ?p) = [(''pkg/doc.go'', ?f)]"
    by (simp add: documented_def plain_file_def doc_file_def ParseDir_filename_def)
  have d: "FileDoc ?f = Some ?doc"
    by (simp add: doc_file_def)
  have n: "PkgName ?p \<noteq> ''main''"
    by simp
  have ln: "physical_lines ?doc = 101"
    by (simp add: physical_lines_def Count_newline_append Count_newline_replicate)
       (simp add: Count_newline_def)
  have a: "CheckPackage ?p sample_linter =
             Inr (report [pkg_finding ''pkg/doc.go'' ''long doc-comments should go into doc.go file'' []]
                    sample_linter)"
    using CheckPackage_one_documented [OF f1 d n, of sample_linter] unfolding ln by simp
  have pf: "pkg_finding ''pkg/doc.go'' ''long doc-comments should go into doc.go file'' [] =
              (''pkg/doc.go: long doc-comments should go into doc.go file'' @ [CHR 0x0A], [])"
    by (simp add: pkg_finding_def)
  show ?thesis
    using a pth key ln unfolding pf by (simp only: simp_thms)
qed

lemma counted_report [simp]: "counted (report ws l) = counted l"
  by (simp add: counted_def)

lemma counted_current_fn [simp]: "counted (l\<lparr>current_fn := x\<rparr>) = counted l"
  by (simp add: counted_def)

lemma forEach_preserves:
  assumes body: "\<And>x l. x \<in> set xs \<Longrightarrow> P l \<Longrightarrow> \<exists>l'. body x l = Inr l' \<and> P l'"
    and l: "P l"
  shows "\<exists>l'. forEach body xs l = Inr l' \<and> P l'"
  using assms
proof (induction xs arbitrary: l)
  case Nil
  then show ?case by simp
next
  case (Cons x xs)
  from Cons.prems obtain l1 where l1: "body x l = Inr l1" "P l1"
    by (meson list.set_intros(1))
  have "\<exists>l'. forEach body xs l1 = Inr l' \<and> P l'"
    using Cons.prems(1) l1(2) by (intro Cons.IH) auto
  then show ?case
    by (simp add: l1(1))
qed

lemma CheckPackage_total: "\<exists>ws. CheckPackage pkg l = Inr (report ws l)"
proof -
  let ?fs = "filter documented (Files pkg)"
  consider "length ?fs = 0" | "1 < length ?fs" | "length ?fs = 1"
    by linarith
  then show ?thesis
  proof cases
    case 1
    then show ?thesis
      by (auto simp: CheckPackage_def CheckPackage_files_filter Let_def warnPkg_report)
  next
    case 2
    then show ?thesis
      by (auto simp: CheckPackage_def CheckPackage_files_filter Let_def warnPkg_report)
  next
    case 3
    then obtain name f where one: "?fs = [(name, f)]"
      by (cases ?fs) auto
    then have "(name, f) \<in> set ?fs"
      by simp
    then obtain doc where doc: "FileDoc f = Some doc"
      by (auto simp: documented_def)
    have "CheckPackage pkg l = Inr l \<or>
          CheckPackage pkg l =
            Inr (report [pkg_finding (if name = [] then path l else name)
                           ''long doc-comments should go into doc.go file'' []] l)"
      by (simp add: CheckPackage_def CheckPackage_files_filter one doc Let_def warnPkg_report)
    then show ?thesis
      by (metis report_Nil)
  qed
qed

lemma CheckFile_decl_total:
  assumes "ready l" and "wf_decl decl"
  shows "\<exists>ws x. CheckFile_decl decl l = Inr (report ws (l\<lparr>current_fn := x\<rparr>))"
proof -
  have same: "Inr l = Inr (report [] (l\<lparr>current_fn := current_fn l\<rparr>))"
    by simp
  show ?thesis
  proof (cases decl)
    case (FuncDeclD d)
    show ?thesis
    proof (cases "Doc d")
      case None
      then have "CheckFile_decl decl l = Inr l"
        by (simp add: CheckFile_decl_def FuncDeclD)
      then show ?thesis using same by metis
    next
      case (Some doc)
      then obtain c cs where "doc = c # cs"
        using assms(2) by (cases doc) (auto simp: wf_decl_def FuncDeclD)
      then show ?thesis
        using CheckFile_decl_report [OF assms(1) Some] FuncDeclD by blast
    qed
  next
    case GenDeclD
    then have "CheckFile_decl decl l = Inr l"
      by (simp add: CheckFile_decl_def)
    then show ?thesis using same by metis
  next
    case BadDeclD
    then have "CheckFile_decl decl l = Inr l"
      by (simp add: CheckFile_decl_def)
    then show ?thesis using same by metis
  qed
qed

lemma CheckFile_preserves:
  assumes "list_all wf_decl (Decls f)" and "ready l \<and> counted l"
  shows "\<exists>l'. CheckFile f l = Inr l' \<and> (ready l' \<and> counted l')"
  unfolding CheckFile_def
proof (rule forEach_preserves [where P = "\<lambda>l. ready l \<and> counted l"])
  fix decl l
  assume "decl \<in> set (Decls f)" and l: "ready l \<and> counted l"
  then have "wf_decl decl"
    using assms(1) by (simp add: list_all_iff)
  with l obtain ws x where "CheckFile_decl decl l = Inr (report ws (l\<lparr>current_fn := x\<rparr>))"
    using CheckFile_decl_total by blast
  then show "\<exists>l'. CheckFile_decl decl l = Inr l' \<and> (ready l' \<and> counted l')"
    using l by simp
qed (rule assms(2))

lemma main_package_preserves:
  assumes "wf_package pkg" and "ready l \<and> counted l"
  shows "\<exists>l'. main_package pkg l = Inr l' \<and> (ready l' \<and> counted l')"
proof -
  obtain ws where ws: "CheckPackage pkg l = Inr (report ws l)"
    using CheckPackage_total by blast
  have "\<exists>l'. forEach (\<lambda>(filename, f). CheckFile f) (Files pkg) (report ws l) = Inr l' \<and>
             (ready l' \<and> counted l')"
  proof (rule forEach_preserves [where P = "\<lambda>l. ready l \<and> counted l"])
    fix nf l
    assume "nf \<in> set (Files pkg)" and l: "ready l \<and> counted l"
    then have "list_all wf_decl (Decls (snd nf))"
      using assms(1) by (simp add: wf_package_def list_all_iff)
    then show "\<exists>l'. (case nf of (filename, f) \<Rightarrow> CheckFile f) l = Inr l' \<and> (ready l' \<and> counted l')"
      using CheckFile_preserves [OF _ l, of "snd nf"] by (simp add: case_prod_beta)
  next
    show "ready (report ws l) \<and> counted (report ws l)"
      using assms(2) by simp
  qed
  then show ?thesis
    by (simp add: main_package_def ws)
qed

lemma main_preserves:
  assumes "list_all wf_package packages" and "counted l"
  shows "\<exists>l'. main packages l = Inr l' \<and> (ready l' \<and> counted l')"
  unfolding main_def
proof (rule forEach_preserves [where P = "\<lambda>l. ready l \<and> counted l"])
  fix pkg l
  assume "pkg \<in> set packages" and l: "ready l \<and> counted l"
  then have "wf_package pkg"
    using assms(1) by (simp add: list_all_iff)
  then show "\<exists>l'. main_package pkg l = Inr l' \<and> (ready l' \<and> counted l')"
    using l by (rule main_package_preserves)
next
  show "ready (initRegexps l) \<and> counted (initRegexps l)"
    using assms(2) by (simp add: ready_def counted_def initRegexps_def)
qed

text \<open>
  Claim C10.  For a parsed tree (every documentation of a function has at least one
  comment), \<^verbatim>\<open>main\<close> reaches \<^verbatim>\<open>os.Exit\<close>: no check panics.  In the state it reaches,
  the issue counter is the number of findings written, and the exit status is 0 if nothing
  was written and 1 otherwise.  Both \<^verbatim>\<open>warnPkg\<close> and \<^verbatim>\<open>warnFunc\<close> add one to the counter
  with the one line they write; nothing decreases it.
\<close>

theorem exit_status:
  assumes "list_all wf_package packages"
  shows "(\<exists>l'. main packages (new_linter p fs) = Inr l' \<and>
               issues l' = int (length (stderr l')) \<and>
               main_exit packages (new_linter p fs) = Inr (if stderr l' = [] then 0 else 1)) \<and>
         issues (warnPkg fileName format args l) = issues l + 1 \<and>
         length (stderr (warnPkg fileName format args l)) = length (stderr l) + 1 \<and>
         (\<forall>l1. warnFunc format args l = Inr l1 \<longrightarrow>
                 issues l1 = issues l + 1 \<and> length (stderr l1) = length (stderr l) + 1)"
proof -
  have "counted (new_linter p fs)"
    by (simp add: counted_def new_linter_def)
  with assms obtain l' where l': "main packages (new_linter p fs) = Inr l'" "counted l'"
    using main_preserves by blast
  then have "main_exit packages (new_linter p fs) = Inr (if stderr l' = [] then 0 else 1)"
    by (simp add: main_exit_def ExitCode_def counted_def)
  with l' have "\<exists>l'. main packages (new_linter p fs) = Inr l' \<and>
               issues l' = int (length (stderr l')) \<and>
               main_exit packages (new_linter p fs) = Inr (if stderr l' = [] then 0 else 1)"
    by (auto simp: counted_def)
  moreover have "issues (warnPkg fileName format args l) = issues l + 1"
    and "length (stderr (warnPkg fileName format args l)) = length (stderr l) + 1"
    by (simp_all add: warnPkg_def Let_def)
  moreover have "\<forall>l1. warnFunc format args l = Inr l1 \<longrightarrow>
                 issues l1 = issues l + 1 \<and> length (stderr l1) = length (stderr l) + 1"
    by (auto simp: warnFunc_def Let_def split: option.splits)
  ultimately show ?thesis
    by blast
qed

lemmas check_defs =
  main_def main_package_def CheckFile_def CheckFile_decl_def CheckPackage_def
  checkBoolFuncStyle_def checkBoolFuncStyle_antipattern_def checkBoolFuncStyle_prefix_def
  checkEndsWithPunct_def isBooleanFunc_def warnFunc_def warnPkg_def
  IsPunct_def rune_def punct_Latin1_def plain_file_def doc_file_def

lemma run1:
  "main [\<lparr>PkgName = ''main'',
          Files = [(''pkg/a.go'',
                    doc_file [\<lparr>Text = ''// Command a.''\<rparr>]
                      [GenDeclD, FuncDeclD (predicate_decl ''IsFoo'' ''// IsFoo reports whether x.'')])]\<rparr>]
     (new_linter ''pkg'' (\<lambda>p. ''pkg/a.go:3:1'')) =
   Inr (sample_at (predicate_decl ''IsFoo'' ''// IsFoo reports whether x.''))"
  by (simp add: check_defs sample_defs regexp_defs)

lemma run2:
  "main [\<lparr>PkgName = ''lib'',
          Files = [(''pkg/a.go'',
                    plain_file
                      [GenDeclD, FuncDeclD (predicate_decl ''IsFoo'' ''// IsFoo reports whether x.'')])]\<rparr>]
     (new_linter ''pkg'' (\<lambda>p. ''pkg/a.go:3:1'')) =
   Inr (report [(''pkg: no doc-comment found'' @ [CHR 0x0A], [])]
         (sample_at (predicate_decl ''IsFoo'' ''// IsFoo reports whether x.'')))"
  by (simp add: check_defs sample_defs regexp_defs)


text \<open>A run without findings exits with 0; a run on a package without a package comment
  exits with 1.\<close>

theorem exit_status_witness:
  "list_all wf_package
     [\<lparr>PkgName = ''main'',
       Files = [(''pkg/a.go'',
                 doc_file [\<lparr>Text = ''// Command a.''\<rparr>]
                   [GenDeclD, FuncDeclD (predicate_decl ''IsFoo'' ''// IsFoo reports whether x.'')])]\<rparr>] \<and>
   main_exit
     [\<lparr>PkgName = ''main'',
       Files = [(''pkg/a.go'',
                 doc_file [\<lparr>Text = ''// Command a.''\<rparr>]
                   [GenDeclD, FuncDeclD (predicate_decl ''IsFoo'' ''// IsFoo reports whether x.'')])]\<rparr>]
     (new_linter ''pkg'' (\<lambda>p. ''pkg/a.go:3:1'')) = Inr 0 \<and>
   list_all wf_package
     [\<lparr>PkgName = ''lib'',
       Files = [(''pkg/a.go'',
                 plain_file
                   [GenDeclD, FuncDeclD (predicate_decl ''IsFoo'' ''// IsFoo reports whether x.'')])]\<rparr>] \<and>
   main_exit
     [\<lparr>PkgName = ''lib'',
       Files = [(''pkg/a.go'',
                 plain_file
                   [GenDeclD, FuncDeclD (predicate_decl ''IsFoo'' ''// IsFoo reports whether x.'')])]\<rparr>]
     (new_linter ''pkg'' (\<lambda>p. ''pkg/a.go:3:1'')) = Inr 1"
proof -
  let ?ds = "[GenDeclD, FuncDeclD (predicate_decl ''IsFoo'' ''// IsFoo reports whether x.'')]"
  let ?p1 = "\<lparr>PkgName = ''main'', Files = [(''pkg/a.go'', doc_file [\<lparr>Text = ''// Command a.''\<rparr>] ?ds)]\<rparr>"
  let ?p2 = "\<lparr>PkgName = ''lib'', Files = [(''pkg/a.go'', plain_file ?ds)]\<rparr>"
  let ?l0 = "new_linter ''pkg'' (\<lambda>p. ''pkg/a.go:3:1'')"
  have w1: "list_all wf_package [?p1]"
    by (simp add: wf_package_def wf_decl_def doc_file_def predicate_decl_def)
  have w2: "list_all wf_package [?p2]"
    by (simp add: wf_package_def wf_decl_def plain_file_def predicate_decl_def)
  have s1: "stderr (sample_at (predicate_decl ''IsFoo'' ''// IsFoo reports whether x.'')) = []"
    by (simp add: sample_defs)
  from exit_status [OF w1, of "''pkg''" "\<lambda>p. ''pkg/a.go:3:1''"]
  obtain l1 where "main [?p1] ?l0 = Inr l1"
    and "main_exit [?p1] ?l0 = Inr (if stderr l1 = [] then 0 else 1)"
    by blast
  then have e1: "main_exit [?p1] ?l0 = Inr 0"
    using s1 by (auto simp: run1)
  from exit_status [OF w2, of "''pkg''" "\<lambda>p. ''pkg/a.go:3:1''"]
  obtain l2 where "main [?p2] ?l0 = Inr l2"
    and "main_exit [?p2] ?l0 = Inr (if stderr l2 = [] then 0 else 1)"
    by blast
  then have e2: "main_exit [?p2] ?l0 = Inr 1"
    by (auto simp: run2)
  show ?thesis
    using w1 w2 e1 e2 by (simp only: simp_thms)
qed

subsection \<open>The patterns, read without the matcher\<close>

text \<open>
  What the searches of \<^verbatim>\<open>predPrefix\<close> and \<^verbatim>\<open>directive\<close> decide, and
  \<^verbatim>\<open>strings.Contains\<close>, in terms of lists: \<^verbatim>\<open>predPrefix\<close> matches a name when some
  suffix of the name begins with a prefix and an upper-case letter or digit; a comment has
  the shape of a directive when it is the slashes, one or more word characters, a colon and
  a space, and any rest.  For a name that begins with a prefix, block 2 of
  \<^verbatim>\<open>checkBoolFuncStyle\<close> reports if and only if the first comment does not contain the
  name followed by \<^verbatim>\<open> reports whether \<close>; for a comment that ends in an ASCII byte,
  \<^verbatim>\<open>checkEndsWithPunct\<close> decides on its last character.
\<close>

lemma set_rem_alternatives:
  "ps \<noteq> [] \<Longrightarrow>
   set (rem (alternatives ps) s) = {drop (length p) s |p. p \<in> set ps \<and> HasPrefix s p}"
  by (induction ps rule: alternatives.induct) auto

lemma rem_Cls_Star:
  "(rem (Seq (Cls k) (Star k')) s \<noteq> []) = (case s of [] \<Rightarrow> False | c # _ \<Rightarrow> in_cls k c)"
  by (cases s) simp_all

lemma prefixes_not_Nil: "prefixes \<noteq> []"
  by (simp add: prefixes_def)

lemma rem_predPrefix: "(rem predPrefix_re s \<noteq> []) = begins_with_prefix s"
proof -
  let ?B = "Seq (Cls (Ranges [(CHR ''A'', CHR ''Z''), (CHR ''0'', CHR ''9'')])) (Star word_cls)"
  have "(rem predPrefix_re s \<noteq> []) = (\<exists>r\<in>set (rem (alternatives prefixes) s). rem ?B r \<noteq> [])"
    by (simp add: predPrefix_re_def del: rem.simps(6) in_cls.simps)
  also have "\<dots> = (\<exists>p\<in>set prefixes. HasPrefix s p \<and> rem ?B (drop (length p) s) \<noteq> [])"
    unfolding set_rem_alternatives [OF prefixes_not_Nil] by blast
  also have "\<dots> = begins_with_prefix s"
    unfolding rem_Cls_Star begins_with_prefix_def list_ex_iff by simp
  finally show ?thesis .
qed

lemma MatchString_drop: "MatchString r s = (\<exists>i\<le>length s. rem r (drop i s) \<noteq> [])"
proof (induction s)
  case Nil
  show ?case by simp
next
  case (Cons c cs)
  have "(\<exists>i\<le>length (c # cs). rem r (drop i (c # cs)) \<noteq> []) =
        (rem r (c # cs) \<noteq> [] \<or> (\<exists>i\<le>length cs. rem r (drop i cs) \<noteq> []))"
  proof
    assume "\<exists>i\<le>length (c # cs). rem r (drop i (c # cs)) \<noteq> []"
    then obtain i where i: "i \<le> length (c # cs)" "rem r (drop i (c # cs)) \<noteq> []"
      by blast
    show "rem r (c # cs) \<noteq> [] \<or> (\<exists>i\<le>length cs. rem r (drop i cs) \<noteq> [])"
    proof (cases i)
      case 0
      with i show ?thesis by simp
    next
      case (Suc j)
      with i have "j \<le> length cs" "rem r (drop j cs) \<noteq> []" by simp_all
      then show ?thesis by blast
    qed
  next
    assume "rem r (c # cs) \<noteq> [] \<or> (\<exists>i\<le>length cs. rem r (drop i cs) \<noteq> [])"
    then show "\<exists>i\<le>length (c # cs). rem r (drop i (c # cs)) \<noteq> []"
    proof
      assume "rem r (c # cs) \<noteq> []"
      then have "0 \<le> length (c # cs) \<and> rem r (drop 0 (c # cs)) \<noteq> []" by simp
      then show ?thesis by blast
    next
      assume "\<exists>i\<le>length cs. rem r (drop i cs) \<noteq> []"
      then obtain j where "j \<le> length cs" "rem r (drop j cs) \<noteq> []" by blast
      then have "Suc j \<le> length (c # cs) \<and> rem r (drop (Suc j) (c # cs)) \<noteq> []" by simp
      then show ?thesis by blast
    qed
  qed
  then show ?case
    using Cons.IH by simp
qed

lemma MatchString_predPrefix:
  "MatchString predPrefix_re name = (\<exists>i\<le>length name. begins_with_prefix (drop i name))"
  by (simp add: MatchString_drop rem_predPrefix)

lemma prefix_check_on_prefixed_name:
  assumes "ready l" and "current_fn l = Some fn" and "begins_with_prefix name"
  shows "checkBoolFuncStyle_prefix line name l =
           Inr (report (if Contains line (name @ '' reports whether '') then []
                        else [finding l fn ''bad predicate comment'']) l)"
proof -
  have "begins_with_prefix (drop 0 name)"
    using assms(3) by simp
  then have "MatchString predPrefix_re name"
    unfolding MatchString_predPrefix by blast
  then show ?thesis
    using assms(1,2) by (simp add: checkBoolFuncStyle_prefix_report prefix_fires_def)
qed

lemma Contains_iff:
  "Contains s sub = (\<exists>pre post. s = pre @ sub @ post)"
proof (induction s)
  case Nil
  show ?case by (auto simp: HasPrefix_def)
next
  case (Cons c cs)
  have hp: "HasPrefix (c # cs) sub = (\<exists>post. c # cs = sub @ post)"
    by (metis HasPrefix_def append_eq_conv_conj append_take_drop_id length_append le_add1)
  show ?case
  proof
    assume "Contains (c # cs) sub"
    then consider "HasPrefix (c # cs) sub" | "Contains cs sub" by auto
    then show "\<exists>pre post. c # cs = pre @ sub @ post"
    proof cases
      case 1
      then obtain post where "c # cs = [] @ sub @ post" using hp by auto
      then show ?thesis by blast
    next
      case 2
      then obtain pre post where "cs = pre @ sub @ post" using Cons.IH by blast
      then have "c # cs = (c # pre) @ sub @ post" by simp
      then show ?thesis by blast
    qed
  next
    assume "\<exists>pre post. c # cs = pre @ sub @ post"
    then obtain pre post where e: "c # cs = pre @ sub @ post" by blast
    show "Contains (c # cs) sub"
    proof (cases pre)
      case Nil
      with e have "HasPrefix (c # cs) sub" using hp by auto
      then show ?thesis by simp
    next
      case (Cons a pre')
      with e have "cs = pre' @ sub @ post" by simp
      then have "Contains cs sub" using Cons.IH by blast
      then show ?thesis by simp
    qed
  qed
qed

lemma punct_check_ascii:
  assumes "current_fn l = Some fn" and "HasPrefix line ''//''" and "(of_char (last line) :: nat) < 0x80"
  shows "last_rune line = Some (of_char (last line))"
    and "checkEndsWithPunct [\<lparr>Text = line\<rparr>] l =
           Inr (report (if IsPunct (of_char (last line)) then []
                        else [finding l fn ''doc-comment should end with punctuation, usually with period'']) l)"
proof -
  have ne: "line \<noteq> []"
    using assms(2) by (auto simp: HasPrefix_def)
  then obtain b before where r: "rev line = b # before"
    by (cases "rev line") auto
  then have "last line = b"
    using ne by (metis last_rev list.sel(1) rev_rev_ident hd_rev)
  then show "last_rune line = Some (of_char (last line))"
    using assms(3) r by (simp add: last_rune_def)
  show "checkEndsWithPunct [\<lparr>Text = line\<rparr>] l =
           Inr (report (if IsPunct (of_char (last line)) then []
                        else [finding l fn ''doc-comment should end with punctuation, usually with period'']) l)"
    using assms(1,2) by (simp add: checkEndsWithPunct_report rune_def)
qed

lemma HasPrefix_iff: "HasPrefix s p = (\<exists>post. s = p @ post)"
  by (metis HasPrefix_def append_eq_conv_conj append_take_drop_id length_append le_add1)

lemma rem_Lit_Seq:
  "(rem (Seq (Lit p) r) s \<noteq> []) = (HasPrefix s p \<and> rem r (drop (length p) s) \<noteq> [])"
  by simp

lemma rem_Star_not_Nil: "rem (Star k) s \<noteq> []"
  by simp

lemma rem_Plus_Seq:
  "(rem (Seq (Plus k) r) s \<noteq> []) =
     (\<exists>n. 1 \<le> n \<and> n \<le> length (takeWhile (in_cls k) s) \<and> rem r (drop n s) \<noteq> [])"
proof -
  have "(rem (Seq (Plus k) r) s \<noteq> []) =
        (\<exists>n\<in>set [1 ..< Suc (length (takeWhile (in_cls k) s))]. rem r (drop n s) \<noteq> [])"
    by (simp del: upt_Suc)
  also have "\<dots> = (\<exists>n. 1 \<le> n \<and> n \<le> length (takeWhile (in_cls k) s) \<and> rem r (drop n s) \<noteq> [])"
    by (auto simp del: upt_Suc)
  finally show ?thesis .
qed

lemma take_takeWhile:
  "n \<le> length (takeWhile P xs) \<Longrightarrow> take n xs = take n (takeWhile P xs)"
proof (induction xs arbitrary: n)
  case Nil
  show ?case by simp
next
  case (Cons x xs)
  show ?case
  proof (cases n)
    case 0
    then show ?thesis by simp
  next
    case (Suc m)
    with Cons.prems have "P x" and "m \<le> length (takeWhile P xs)"
      by (auto split: if_splits)
    then show ?thesis
      using Cons.IH [of m] Suc by simp
  qed
qed

lemma directive_shape_unfold:
  "directive_shape c =
     (HasPrefix (Text c) ''//'' \<and>
      (\<exists>n. 1 \<le> n \<and> n \<le> length (takeWhile (in_cls word_cls) (drop (length ''//'') (Text c))) \<and>
           HasPrefix (drop n (drop (length ''//'') (Text c))) '': ''))"
  unfolding directive_shape_def directive_re_def rem_Lit_Seq rem_Plus_Seq
  using rem_Star_not_Nil by blast

lemma directive_shape_iff:
  "directive_shape c =
     (\<exists>w rest. Text c = ''//'' @ w @ '': '' @ rest \<and> w \<noteq> [] \<and> (\<forall>x\<in>set w. in_cls word_cls x))"
proof
  let ?r = "drop (length ''//'') (Text c)"
  assume "directive_shape c"
  then obtain n where hp: "HasPrefix (Text c) ''//''"
    and n: "1 \<le> n" "n \<le> length (takeWhile (in_cls word_cls) ?r)"
    and "HasPrefix (drop n ?r) '': ''"
    unfolding directive_shape_unfold by blast
  then obtain rest where rest: "drop n ?r = '': '' @ rest"
    unfolding HasPrefix_iff by blast
  let ?w = "take n ?r"
  have t: "Text c = ''//'' @ ?r"
    using hp unfolding HasPrefix_iff by auto
  have "?r = ?w @ drop n ?r"
    by (rule append_take_drop_id [symmetric])
  then have "?r = ?w @ '': '' @ rest"
    unfolding rest .
  then have e: "Text c = ''//'' @ ?w @ '': '' @ rest"
    using t by metis
  have "?w = take n (takeWhile (in_cls word_cls) ?r)"
    using n(2) by (rule take_takeWhile)
  then have "set ?w \<subseteq> set (takeWhile (in_cls word_cls) ?r)"
    by (metis set_take_subset)
  then have all: "\<forall>x\<in>set ?w. in_cls word_cls x"
    by (meson set_takeWhileD subsetD)
  have "length (takeWhile (in_cls word_cls) ?r) \<le> length ?r"
    by (rule length_takeWhile_le)
  then have "?w \<noteq> []"
    using n by auto
  with e all show "\<exists>w rest. Text c = ''//'' @ w @ '': '' @ rest \<and> w \<noteq> [] \<and> (\<forall>x\<in>set w. in_cls word_cls x)"
    by blast
next
  assume "\<exists>w rest. Text c = ''//'' @ w @ '': '' @ rest \<and> w \<noteq> [] \<and> (\<forall>x\<in>set w. in_cls word_cls x)"
  then obtain w rest where t: "Text c = ''//'' @ w @ '': '' @ rest" and w: "w \<noteq> []"
    and all: "\<forall>x\<in>set w. in_cls word_cls x"
    by blast
  have hp: "HasPrefix (Text c) ''//''"
    unfolding HasPrefix_iff using t by blast
  have r: "drop (length ''//'') (Text c) = w @ '': '' @ rest"
    using t by simp
  have nc: "\<not> in_cls word_cls (CHR '':'')"
    by (simp add: word_cls_def)
  have tw: "takeWhile (in_cls word_cls) (w @ '': '' @ rest) = w"
    using all nc by (simp add: takeWhile_append2)
  have "HasPrefix (drop (length w) (w @ '': '' @ rest)) '': ''"
    unfolding HasPrefix_iff by simp
  moreover have "1 \<le> length w"
    using w by (cases w) simp_all
  ultimately show "directive_shape c"
    unfolding directive_shape_unfold r tw using hp by blast
qed

end
